(* ===== verification/Prelude.thy ===== *)
theory Prelude
  imports Main "HOL-Library.Word" "HOL-Library.Sublist"
begin

text \<open>
  Shared vocabulary of the development: the fixed-width integers of the Rust source, the result
  type of code that may panic (an out-of-range index, a bad slice range, an underflowing
  subtraction), the propagation of \<open>None\<close> by the question mark operator, big-endian 16-bit
  fields, and the proof collections the component theories use:

  \<^item> \<open>panic_free\<close>: introduction rules that show a computation never panics;
  \<^item> \<open>rust_conv\<close>: inversion equations for computations that returned a value;
  \<^item> \<open>be_simps\<close>: reading and writing big-endian fields.

  A Rust \<open>usize\<close> is a \<open>nat\<close>: every offset the program computes is bounded by the length of a
  buffer of at most a few kilobytes plus a 16-bit field, which fits \<open>usize\<close> on the 32-bit and
  64-bit targets the project builds for.
\<close>

named_theorems panic_free "introduction rules: the computation does not panic"
named_theorems rust_conv "inversion of computations that returned a value"
named_theorems be_simps "big-endian fields"

type_synonym byte = "8 word"
type_synonym u16 = "16 word"
type_synonym bytes = "byte list"


section \<open>Computations that may panic\<close>

datatype 'a rust = Panic | Val 'a

definition bindR :: "'a rust \<Rightarrow> ('a \<Rightarrow> 'b rust) \<Rightarrow> 'b rust" where
  "bindR m f = (case m of Panic \<Rightarrow> Panic | Val x \<Rightarrow> f x)"

text \<open>The question mark operator on an \<open>Option\<close>: \<open>None\<close> is returned at once.\<close>

definition bindO :: "'a option rust \<Rightarrow> ('a \<Rightarrow> 'b option rust) \<Rightarrow> 'b option rust" where
  "bindO m f = bindR m (\<lambda>r. case r of None \<Rightarrow> Val None | Some x \<Rightarrow> f x)"

text \<open>Indexing, slicing and checked subtraction, with the panic of each.\<close>

definition idx :: "'a list \<Rightarrow> nat \<Rightarrow> 'a rust" where
  "idx xs i = (if i < length xs then Val (xs ! i) else Panic)"

definition slice :: "'a list \<Rightarrow> nat \<Rightarrow> nat \<Rightarrow> 'a list rust" where
  "slice xs a b = (if a \<le> b \<and> b \<le> length xs then Val (take (b - a) (drop a xs)) else Panic)"

definition slice_from :: "'a list \<Rightarrow> nat \<Rightarrow> 'a list rust" where
  "slice_from xs a = (if a \<le> length xs then Val (drop a xs) else Panic)"

definition slice_to :: "'a list \<Rightarrow> nat \<Rightarrow> 'a list rust" where
  "slice_to xs b = (if b \<le> length xs then Val (take b xs) else Panic)"

definition sub_checked :: "nat \<Rightarrow> nat \<Rightarrow> nat rust" where
  "sub_checked a b = (if b \<le> a then Val (a - b) else Panic)"

text \<open>\<open>buf[a..b].copy_from_slice(src)\<close>: the range must be in the buffer and have the length of the source.\<close>

definition copy_into :: "'a list \<Rightarrow> nat \<Rightarrow> nat \<Rightarrow> 'a list \<Rightarrow> 'a list rust" where
  "copy_into buf a b src =
     (if a \<le> b \<and> b \<le> length buf \<and> length src = b - a
      then Val (take a buf @ src @ drop b buf) else Panic)"

definition set_idx :: "'a list \<Rightarrow> nat \<Rightarrow> 'a \<Rightarrow> 'a list rust" where
  "set_idx buf i x = (if i < length buf then Val (buf[i := x]) else Panic)"

definition safe :: "'a rust \<Rightarrow> bool" where
  "safe r \<longleftrightarrow> r \<noteq> Panic"

lemma bindR_simps [simp]:
  "bindR Panic f = Panic"
  "bindR (Val x) f = f x"
  by (simp_all add: bindR_def)

lemma bindO_simps [simp]:
  "bindO Panic f = Panic"
  "bindO (Val None) f = Val None"
  "bindO (Val (Some x)) g = g x"
  by (simp_all add: bindO_def)

lemma bindR_cong [fundef_cong]:
  "m = m' \<Longrightarrow> (\<And>x. m' = Val x \<Longrightarrow> f x = f' x) \<Longrightarrow> bindR m f = bindR m' f'"
  by (cases m') (auto simp: bindR_def)

lemma bindO_cong [fundef_cong]:
  "m = m' \<Longrightarrow> (\<And>x. m' = Val (Some x) \<Longrightarrow> f x = f' x) \<Longrightarrow> bindO m f = bindO m' f'"
  by (cases m') (auto simp: bindO_def split: option.splits)

lemma bindR_eq_Val [rust_conv]: "bindR m f = Val y \<longleftrightarrow> (\<exists>x. m = Val x \<and> f x = Val y)"
  by (cases m) auto

lemma bindO_eq_Some [rust_conv]:
  "bindO m f = Val (Some y) \<longleftrightarrow> (\<exists>x. m = Val (Some x) \<and> f x = Val (Some y))"
  by (cases m) (auto simp: bindO_def split: option.splits)

lemma idx_Val [rust_conv]: "idx xs i = Val x \<longleftrightarrow> i < length xs \<and> x = xs ! i"
  by (auto simp: idx_def)

lemma slice_Val [rust_conv]:
  "slice xs a b = Val ys \<longleftrightarrow> a \<le> b \<and> b \<le> length xs \<and> ys = take (b - a) (drop a xs)"
  by (auto simp: slice_def)

lemma slice_from_Val [rust_conv]: "slice_from xs a = Val ys \<longleftrightarrow> a \<le> length xs \<and> ys = drop a xs"
  by (auto simp: slice_from_def)

lemma slice_to_Val [rust_conv]: "slice_to xs b = Val ys \<longleftrightarrow> b \<le> length xs \<and> ys = take b xs"
  by (auto simp: slice_to_def)

lemma sub_checked_Val [rust_conv]: "sub_checked a b = Val n \<longleftrightarrow> b \<le> a \<and> n = a - b"
  by (auto simp: sub_checked_def)

lemma idx_in [simp]: "i < length xs \<Longrightarrow> idx xs i = Val (xs ! i)"
  by (simp add: idx_def)

lemma safe_Val [panic_free]: "safe (Val x)"
  by (simp add: safe_def)

lemma not_safe_Panic [simp]: "\<not> safe Panic"
  by (simp add: safe_def)

lemma safe_bindR [panic_free]: "safe m \<Longrightarrow> (\<And>x. m = Val x \<Longrightarrow> safe (f x)) \<Longrightarrow> safe (bindR m f)"
  by (cases m) (auto simp: safe_def)

lemma safe_bindO [panic_free]:
  "safe m \<Longrightarrow> (\<And>x. m = Val (Some x) \<Longrightarrow> safe (f x)) \<Longrightarrow> safe (bindO m f)"
  by (cases m) (auto simp: safe_def bindO_def split: option.splits)

lemma safe_if [panic_free]: "(b \<Longrightarrow> safe x) \<Longrightarrow> (\<not> b \<Longrightarrow> safe y) \<Longrightarrow> safe (if b then x else y)"
  by simp

lemma safe_idx [panic_free]: "i < length xs \<Longrightarrow> safe (idx xs i)"
  by (simp add: idx_def safe_def)

lemma safe_slice [panic_free]: "a \<le> b \<Longrightarrow> b \<le> length xs \<Longrightarrow> safe (slice xs a b)"
  by (simp add: slice_def safe_def)

lemma safe_slice_from [panic_free]: "a \<le> length xs \<Longrightarrow> safe (slice_from xs a)"
  by (simp add: slice_from_def safe_def)

lemma safe_slice_to [panic_free]: "b \<le> length xs \<Longrightarrow> safe (slice_to xs b)"
  by (simp add: slice_to_def safe_def)

lemma safe_sub_checked [panic_free]: "b \<le> a \<Longrightarrow> safe (sub_checked a b)"
  by (simp add: sub_checked_def safe_def)

lemma safeD: "safe m \<Longrightarrow> \<exists>x. m = Val x"
  by (cases m) auto

lemma copy_into_in [simp]:
  "a \<le> b \<Longrightarrow> b \<le> length buf \<Longrightarrow> length src = b - a \<Longrightarrow>
   copy_into buf a b src = Val (take a buf @ src @ drop b buf)"
  by (simp add: copy_into_def)

lemma set_idx_in [simp]: "i < length buf \<Longrightarrow> set_idx buf i x = Val (buf[i := x])"
  by (simp add: set_idx_def)


section \<open>Big-endian 16-bit fields\<close>

definition from_be_bytes :: "byte \<Rightarrow> byte \<Rightarrow> u16" where
  "from_be_bytes a b = word_of_nat (256 * unat a + unat b)"

definition to_be_bytes :: "u16 \<Rightarrow> bytes" where
  "to_be_bytes w = [ucast (drop_bit 8 w), ucast w]"

lemma unat_byte_less [simp]: "unat (b :: byte) < 256"
  using unsigned_less [of b, where ?'a = nat] by simp

lemma unat_u16_less [simp]: "unat (w :: u16) < 65536"
  using unsigned_less [of w, where ?'a = nat] by simp

lemma unat_word_of_nat_u16 [be_simps]: "unat (word_of_nat n :: u16) = n mod 65536"
  by (simp add: unsigned_of_nat take_bit_eq_mod)

lemma unat_word_of_nat_byte [be_simps]: "unat (word_of_nat n :: byte) = n mod 256"
  by (simp add: unsigned_of_nat take_bit_eq_mod)

lemma unat_from_be_bytes [be_simps]: "unat (from_be_bytes a b) = 256 * unat a + unat b"
proof -
  have "256 * unat a + unat b < 65536"
    using unat_byte_less [of a] unat_byte_less [of b] by linarith
  then show ?thesis
    unfolding from_be_bytes_def unat_word_of_nat_u16 by simp
qed

lemma length_to_be_bytes [simp]: "length (to_be_bytes w) = 2"
  by (simp add: to_be_bytes_def)

lemma unat_drop_bit_8: "unat (drop_bit 8 (w :: u16)) = unat w div 256"
proof -
  have "unat (drop_bit 8 w) = drop_bit 8 (take_bit 16 (unat w))"
    by (simp only: unsigned_drop_bit_eq) simp
  also have "\<dots> = unat w div 256"
    using unat_u16_less [of w] by (simp add: drop_bit_eq_div take_bit_eq_mod)
  finally show ?thesis .
qed

lemma unat_hi_byte: "unat (ucast (drop_bit 8 (w :: u16)) :: byte) = unat w div 256"
proof -
  have "unat w div 256 < 256"
    using unat_u16_less [of w] by linarith
  then show ?thesis
    by (simp only: unsigned_ucast_eq unat_drop_bit_8) (simp add: take_bit_eq_mod)
qed

lemma unat_lo_byte: "unat (ucast (w :: u16) :: byte) = unat w mod 256"
  by (simp add: unsigned_ucast_eq take_bit_eq_mod)

lemma from_to_be_bytes [be_simps]:
  "from_be_bytes (ucast (drop_bit 8 w)) (ucast w) = w"
proof -
  have "unat (from_be_bytes (ucast (drop_bit 8 w)) (ucast w)) = 256 * (unat w div 256) + unat w mod 256"
    by (simp only: unat_from_be_bytes unat_hi_byte) (simp only: unat_lo_byte)
  then have "unat (from_be_bytes (ucast (drop_bit 8 w)) (ucast w)) = unat w"
    by (simp only: mult_div_mod_eq)
  then show ?thesis
    by (simp only: unsigned_word_eqI)
qed


section \<open>Reading at a position\<close>

text \<open>Reading at a position, in terms of what is left of the buffer there.\<close>

lemma drop_Cons_nth: "drop pos data = x # r \<Longrightarrow> pos < length data \<and> data ! pos = x \<and> drop (Suc pos) data = r"
  by (metis Cons_nth_drop_Suc drop_eq_Nil list.distinct(1) list.inject not_le)

lemma idx_drop: "drop pos data = x # r \<Longrightarrow> idx data pos = Val x"
  by (auto dest: drop_Cons_nth)

lemma drop_Cons2_nth:
  "drop pos data = a # b # r \<Longrightarrow>
   pos + 2 \<le> length data \<and> data ! pos = a \<and> data ! Suc pos = b \<and> drop (pos + 2) data = r"
  by (auto dest!: drop_Cons_nth)

lemma drop_append_ge: "drop pos data = xs @ r \<Longrightarrow> drop (pos + length xs) data = r"
  by (metis add.commute append_eq_conv_conj drop_drop)

end
