(* ===== verification/Rust_Str.thy ===== *)
theory Rust_Str
  imports Prelude
begin

text \<open>
  The string operations of the Rust standard library that the program uses. A \<open>char\<close> is a
  Unicode scalar value (an \<open>int\<close>, so that the kernel evaluates comparisons in binary), a \<open>str\<close> a list of them; \<open>utf8\<close> is the byte view of a string
  and \<open>from_utf8_lossy\<close> the decoder that replaces ill-formed sequences by U+FFFD. Literals of the
  source are written \<open>lit ''...''\<close>. The collection \<open>str_simps\<close> holds the evaluation rules.
\<close>

named_theorems str_simps "evaluation of string operations"

type_synonym rchar = int
type_synonym rstr = "rchar list"

definition lit :: "string \<Rightarrow> rstr" where
  "lit s = map of_char s"

section \<open>Characters\<close>

text \<open>\<open>char::is_whitespace\<close>: the Unicode property White\_Space.\<close>

definition is_whitespace :: "rchar \<Rightarrow> bool" where
  "is_whitespace c \<longleftrightarrow>
     (9 \<le> c \<and> c \<le> 13) \<or> c = 32 \<or> c = 0x85 \<or> c = 0xA0 \<or> c = 0x1680 \<or> (0x2000 \<le> c \<and> c \<le> 0x200A) \<or>
     c = 0x2028 \<or> c = 0x2029 \<or> c = 0x202F \<or> c = 0x205F \<or> c = 0x3000"

definition to_ascii_lowercase :: "rchar \<Rightarrow> rchar" where
  "to_ascii_lowercase c = (if 65 \<le> c \<and> c \<le> 90 then c + 32 else c)"

definition to_ascii_uppercase :: "rchar \<Rightarrow> rchar" where
  "to_ascii_uppercase c = (if 97 \<le> c \<and> c \<le> 122 then c - 32 else c)"

definition is_digit :: "rchar \<Rightarrow> bool" where
  "is_digit c \<longleftrightarrow> 48 \<le> c \<and> c \<le> 57"

definition is_ascii :: "rstr \<Rightarrow> bool" where
  "is_ascii s \<longleftrightarrow> list_all (\<lambda>c. c < 128) s"


section \<open>Comparison, prefixes and searching\<close>

definition eq_ignore_ascii_case :: "rstr \<Rightarrow> rstr \<Rightarrow> bool" where
  "eq_ignore_ascii_case a b \<longleftrightarrow> map to_ascii_lowercase a = map to_ascii_lowercase b"

definition starts_with :: "rstr \<Rightarrow> rstr \<Rightarrow> bool" where
  "starts_with s p \<longleftrightarrow> prefix p s"

definition ends_with :: "rstr \<Rightarrow> rstr \<Rightarrow> bool" where
  "ends_with s p \<longleftrightarrow> suffix p s"

definition strip_prefix_str :: "rstr \<Rightarrow> rstr \<Rightarrow> rstr option" where
  "strip_prefix_str p s = (if prefix p s then Some (drop (length p) s) else None)"

text \<open>\<open>str::split_once\<close> for a character and for a string: the text before and after the first match.\<close>

fun split_once :: "rchar \<Rightarrow> rstr \<Rightarrow> (rstr \<times> rstr) option" where
  "split_once d [] = None"
| "split_once d (c # cs) =
     (if c = d then Some ([], cs)
      else case split_once d cs of None \<Rightarrow> None | Some (a, b) \<Rightarrow> Some (c # a, b))"

fun split_once_str :: "rstr \<Rightarrow> rstr \<Rightarrow> (rstr \<times> rstr) option" where
  "split_once_str p [] = (if p = [] then Some ([], []) else None)"
| "split_once_str p (c # cs) =
     (if prefix p (c # cs) then Some ([], drop (length p) (c # cs))
      else case split_once_str p cs of None \<Rightarrow> None | Some (a, b) \<Rightarrow> Some (c # a, b))"

definition contains_str :: "rstr \<Rightarrow> rstr \<Rightarrow> bool" where
  "contains_str s p \<longleftrightarrow> split_once_str p s \<noteq> None"

definition contains_char :: "rstr \<Rightarrow> rchar \<Rightarrow> bool" where
  "contains_char s c \<longleftrightarrow> c \<in> set s"


section \<open>Splitting, lines, trimming and joining\<close>

fun split_by :: "(rchar \<Rightarrow> bool) \<Rightarrow> rstr \<Rightarrow> rstr list" where
  "split_by P [] = [[]]"
| "split_by P (c # cs) =
     (if P c then [] # split_by P cs
      else case split_by P cs of [] \<Rightarrow> [[c]] | w # ws \<Rightarrow> (c # w) # ws)"

definition split_char :: "rchar \<Rightarrow> rstr \<Rightarrow> rstr list" where
  "split_char d s = split_by (\<lambda>c. c = d) s"

definition split_whitespace :: "rstr \<Rightarrow> rstr list" where
  "split_whitespace s = filter (\<lambda>w. w \<noteq> []) (split_by is_whitespace s)"

text \<open>
  \<open>str::lines\<close>: lines end at a line feed, which is dropped together with one carriage return
  before it; a last piece without line feed is kept as it is, and an empty one is no line.
\<close>

definition strip_cr :: "rstr \<Rightarrow> rstr" where
  "strip_cr l = (if l \<noteq> [] \<and> last l = 13 then butlast l else l)"

lemma split_once_length: "split_once d s = Some (a, b) \<Longrightarrow> length b < length s"
  by (induction s arbitrary: a) (auto split: if_splits option.splits)

function str_lines :: "rstr \<Rightarrow> rstr list" where
  "str_lines s =
     (if s = [] then []
      else case split_once 10 s of None \<Rightarrow> [s] | Some (l, r) \<Rightarrow> strip_cr l # str_lines r)"
  by pat_completeness auto
termination
  by (relation "measure length") (auto dest: split_once_length)

declare str_lines.simps [simp del]

definition trim_start :: "rstr \<Rightarrow> rstr" where
  "trim_start s = dropWhile is_whitespace s"

definition trim_end :: "rstr \<Rightarrow> rstr" where
  "trim_end s = rev (dropWhile is_whitespace (rev s))"

definition trim :: "rstr \<Rightarrow> rstr" where
  "trim s = trim_end (trim_start s)"

definition trim_end_matches :: "rchar \<Rightarrow> rstr \<Rightarrow> rstr" where
  "trim_end_matches d s = rev (dropWhile (\<lambda>c. c = d) (rev s))"

fun join :: "rstr \<Rightarrow> rstr list \<Rightarrow> rstr" where
  "join sep [] = []"
| "join sep [l] = l"
| "join sep (l # m # ls) = l @ sep @ join sep (m # ls)"


section \<open>Numbers\<close>

text \<open>
  \<open>str::parse\<close> for an unsigned integer with maximum \<open>m\<close>: an optional plus sign, then decimal
  digits only, at least one; a value above the maximum is an error.
\<close>

definition digits_value :: "rstr \<Rightarrow> int" where
  "digits_value ds = foldl (\<lambda>a d. 10 * a + (d - 48)) 0 ds"

definition parse_uint :: "int \<Rightarrow> rstr \<Rightarrow> int option" where
  "parse_uint m s =
     (let ds = (case s of [] \<Rightarrow> [] | c # cs \<Rightarrow> if c = 43 then cs else s)
      in if ds = [] \<or> \<not> list_all is_digit ds then None
         else if digits_value ds \<le> m then Some (digits_value ds) else None)"

definition parse_u16 :: "rstr \<Rightarrow> u16 option" where
  "parse_u16 s = map_option word_of_int (parse_uint 65535 s)"

text \<open>The decimal digits that \<open>format!\<close> prints for a number.\<close>

function show_int :: "int \<Rightarrow> rstr" where
  "show_int n = (if n < 10 then [48 + n] else show_int (n div 10) @ [48 + n mod 10])"
  by pat_completeness auto
termination
  by (relation "measure nat") auto

declare show_int.simps [simp del]


section \<open>UTF-8\<close>

definition utf8_char :: "rchar \<Rightarrow> bytes" where
  "utf8_char c =
     (if c < 0x80 then [word_of_int c]
      else if c < 0x800 then [word_of_int (0xC0 + c div 64), word_of_int (0x80 + c mod 64)]
      else if c < 0x10000 then
        [word_of_int (0xE0 + c div 4096), word_of_int (0x80 + c div 64 mod 64), word_of_int (0x80 + c mod 64)]
      else
        [word_of_int (0xF0 + c div 262144), word_of_int (0x80 + c div 4096 mod 64),
         word_of_int (0x80 + c div 64 mod 64), word_of_int (0x80 + c mod 64)])"

definition utf8 :: "rstr \<Rightarrow> bytes" where
  "utf8 s = concat (map utf8_char s)"

definition is_scalar :: "rchar \<Rightarrow> bool" where
  "is_scalar c \<longleftrightarrow> c < 0xD800 \<or> (0xE000 \<le> c \<and> c < 0x110000)"

text \<open>
  One step of the decoder at a non-empty input: the code point, or \<open>None\<close> for an ill-formed
  sequence, and the number of bytes taken (for an ill-formed one, its longest prefix that could
  have begun a character).
\<close>

definition is_cont :: "rchar \<Rightarrow> bool" where
  "is_cont b \<longleftrightarrow> 128 \<le> b \<and> b < 192"

definition get0 :: "int list \<Rightarrow> nat \<Rightarrow> int" where
  "get0 s i = (if i < length s then s ! i else 0)"

definition decode_step :: "int list \<Rightarrow> rchar option \<times> nat" where
  "decode_step s =
     (let b = get0 s 0; b1 = get0 s 1; b2 = get0 s 2; b3 = get0 s 3 in
      if b < 128 then (Some b, 1)
      else if 0xC2 \<le> b \<and> b \<le> 0xDF then
        (if is_cont b1 then (Some ((b - 0xC0) * 64 + (b1 - 128)), 2) else (None, 1))
      else if 0xE0 \<le> b \<and> b \<le> 0xEF then
        (if (if b = 0xE0 then 0xA0 \<le> b1 \<and> b1 \<le> 0xBF
             else if b = 0xED then 0x80 \<le> b1 \<and> b1 \<le> 0x9F else is_cont b1)
         then (if is_cont b2 then (Some ((b - 0xE0) * 4096 + (b1 - 128) * 64 + (b2 - 128)), 3) else (None, 2))
         else (None, 1))
      else if 0xF0 \<le> b \<and> b \<le> 0xF4 then
        (if (if b = 0xF0 then 0x90 \<le> b1 \<and> b1 \<le> 0xBF
             else if b = 0xF4 then 0x80 \<le> b1 \<and> b1 \<le> 0x8F else is_cont b1)
         then (if is_cont b2
               then (if is_cont b3
                     then (Some ((b - 0xF0) * 262144 + (b1 - 128) * 4096 + (b2 - 128) * 64 + (b3 - 128)), 4)
                     else (None, 3))
               else (None, 2))
         else (None, 1))
      else (None, 1))"

lemma decode_step_pos: "0 < snd (decode_step s)"
  by (simp add: decode_step_def Let_def)

function decode_utf8 :: "int list \<Rightarrow> rchar option list" where
  "decode_utf8 s =
     (if s = [] then []
      else let (c, n) = decode_step s in c # decode_utf8 (drop n s))"
  by pat_completeness auto
termination
proof (relation "measure length", goal_cases)
  case 1
  then show ?case by simp
next
  case (2 s p c n)
  then have "n = snd (decode_step s)" by (metis snd_conv)
  with decode_step_pos [of s] 2(1) show ?case by (cases s) auto
qed

declare decode_utf8.simps [simp del]

definition from_utf8 :: "bytes \<Rightarrow> rstr option" where
  "from_utf8 bs =
     (let cs = decode_utf8 (map uint bs)
      in if None \<in> set cs then None else Some (map the cs))"

definition from_utf8_lossy :: "bytes \<Rightarrow> rstr" where
  "from_utf8_lossy bs =
     map (\<lambda>c. case c of None \<Rightarrow> 0xFFFD | Some x \<Rightarrow> x) (decode_utf8 (map uint bs))"

text \<open>
  \<open>str::to_lowercase\<close>. On ASCII text it maps each letter; the Unicode tables for other text
  are the parameter \<open>uc\<close>.
\<close>

definition to_lowercase :: "(rstr \<Rightarrow> rstr) \<Rightarrow> rstr \<Rightarrow> rstr" where
  "to_lowercase uc s = (if is_ascii s then map to_ascii_lowercase s else uc s)"


section \<open>Laws of splitting into words\<close>

lemma split_by_not_Nil [simp]: "split_by P s \<noteq> []"
  by (cases s) (auto split: list.splits)

lemma split_by_no_sep: "w \<in> set (split_by P s) \<Longrightarrow> c \<in> set w \<Longrightarrow> \<not> P c"
proof (induction s arbitrary: w)
  case Nil
  then show ?case by simp
next
  case (Cons d s)
  obtain v vs where v: "split_by P s = v # vs"
    by (cases "split_by P s") auto
  show ?case
  proof (cases "P d")
    case True
    with Cons v show ?thesis by auto
  next
    case False
    with Cons.prems(1) v have "w = d # v \<or> w \<in> set (split_by P s)" by auto
    with Cons.IH [of v] Cons.IH [of w] Cons.prems(2) v False show ?thesis by auto
  qed
qed

lemma split_by_append:
  "\<forall>c \<in> set w. \<not> P c \<Longrightarrow> split_by P (w @ s) = (w @ hd (split_by P s)) # tl (split_by P s)"
  by (induction w) (auto split: list.splits)

lemma split_by_word: "\<forall>c \<in> set w. \<not> P c \<Longrightarrow> split_by P w = [w]"
  using split_by_append [of w P "[]"] by simp

lemma split_by_word_sep:
  "\<forall>c \<in> set w. \<not> P c \<Longrightarrow> P d \<Longrightarrow> split_by P (w @ d # s) = w # split_by P s"
  by (simp add: split_by_append)

definition is_word :: "rstr \<Rightarrow> bool" where
  "is_word w \<longleftrightarrow> w \<noteq> [] \<and> (\<forall>c \<in> set w. \<not> is_whitespace c)"

lemma split_whitespace_words: "w \<in> set (split_whitespace s) \<Longrightarrow> is_word w"
  by (auto simp: split_whitespace_def is_word_def dest: split_by_no_sep)

lemma split_whitespace_Nil [simp]: "split_whitespace [] = []"
  by (simp add: split_whitespace_def)

lemma split_whitespace_ws [simp]: "is_whitespace c \<Longrightarrow> split_whitespace (c # s) = split_whitespace s"
  by (simp add: split_whitespace_def)

lemma split_whitespace_word [simp]: "is_word w \<Longrightarrow> split_whitespace w = [w]"
  by (simp add: split_whitespace_def is_word_def split_by_word)

lemma split_whitespace_word_sep [simp]:
  "is_word w \<Longrightarrow> is_whitespace d \<Longrightarrow> split_whitespace (w @ d # s) = w # split_whitespace s"
  by (simp add: split_whitespace_def is_word_def split_by_word_sep)

lemma split_whitespace_sep:
  assumes "is_whitespace d"
  shows "split_whitespace (a @ d # s) = split_whitespace a @ split_whitespace s"
proof (induction a)
  case Nil
  then show ?case using assms by simp
next
  case (Cons c a)
  obtain v vs u us where "split_by is_whitespace a = v # vs" "split_by is_whitespace (a @ d # s) = u # us"
    by (metis list.exhaust split_by_not_Nil)
  moreover have "split_by is_whitespace (a @ d # s) = split_by is_whitespace a @ split_by is_whitespace s"
    using assms
  proof (induction a)
    case (Cons e a)
    obtain x xs where "split_by is_whitespace a = x # xs"
      by (metis list.exhaust split_by_not_Nil)
    with Cons show ?case by simp
  qed simp
  ultimately show ?case
    using Cons by (auto simp: split_whitespace_def)
qed

lemma split_whitespace_trim_start: "split_whitespace (trim_start s) = split_whitespace s"
  by (induction s) (auto simp: trim_start_def)

lemma split_whitespace_all_ws: "\<forall>c \<in> set s. is_whitespace c \<Longrightarrow> split_whitespace s = []"
  by (induction s) auto


section \<open>Laws of lines\<close>

lemma split_once_None: "split_once d s = None \<longleftrightarrow> d \<notin> set s"
  by (induction s) (auto split: option.splits)

lemma split_once_append: "d \<notin> set a \<Longrightarrow> split_once d (a @ d # b) = Some (a, b)"
  by (induction a) auto

lemma split_once_Some: "split_once d s = Some (a, b) \<longleftrightarrow> s = a @ d # b \<and> d \<notin> set a"
proof
  show "split_once d s = Some (a, b) \<Longrightarrow> s = a @ d # b \<and> d \<notin> set a"
    by (induction s arbitrary: a) (auto split: if_splits option.splits)
qed (auto simp: split_once_append)

definition crlf :: rstr where
  "crlf = [13, 10]"

lemma str_lines_Nil [simp]: "str_lines [] = []"
  by (subst str_lines.simps) simp

lemma str_lines_single: "s \<noteq> [] \<Longrightarrow> 10 \<notin> set s \<Longrightarrow> str_lines s = [s]"
  by (subst str_lines.simps) (simp add: split_once_None [THEN iffD2])

lemma str_lines_crlf: "10 \<notin> set l \<Longrightarrow> str_lines (l @ crlf @ r) = l # str_lines r"
  using split_once_append [of 10 "l @ [13]" r]
  by (subst str_lines.simps) (simp add: crlf_def strip_cr_def)

lemma str_lines_no_lf: "l \<in> set (str_lines s) \<Longrightarrow> 10 \<notin> set l"
proof (induction s rule: str_lines.induct)
  case (1 s)
  show ?case
  proof (cases "split_once 10 s")
    case None
    with "1.prems" show ?thesis
      by (subst (asm) str_lines.simps) (auto simp: split_once_None [symmetric] split: if_splits)
  next
    case (Some p)
    obtain a b where p: "p = (a, b)" by (cases p)
    have a: "10 \<notin> set a" and s: "s \<noteq> []"
      using Some p by (auto simp: split_once_Some)
    from "1.prems" Some p s have "l = strip_cr a \<or> l \<in> set (str_lines b)"
      by (subst (asm) str_lines.simps) simp
    then show ?thesis
    proof
      assume "l = strip_cr a"
      with a show ?thesis by (auto simp: strip_cr_def dest: in_set_butlastD)
    qed (use "1.IH" [OF s Some p [symmetric]] in simp)
  qed
qed

definition head_line :: "rstr \<Rightarrow> rstr" where
  "head_line s = (case str_lines s of [] \<Rightarrow> [] | l # _ \<Rightarrow> l)"

lemma head_line_Nil [simp]: "head_line [] = []"
  by (simp add: head_line_def)

text \<open>Joining newline-free lines with CR LF and reading them back.\<close>

definition lf_free :: "rstr list \<Rightarrow> bool" where
  "lf_free ls \<longleftrightarrow> (\<forall>l \<in> set ls. 10 \<notin> set l)"

lemma join_Cons: "ls \<noteq> [] \<Longrightarrow> join sep (l # ls) = l @ sep @ join sep ls"
  by (cases ls) auto

lemma str_lines_join:
  "lf_free ls \<Longrightarrow> str_lines (join crlf ls) = (if ls \<noteq> [] \<and> last ls = [] then butlast ls else ls)"
proof (induction ls)
  case (Cons l ls)
  show ?case
  proof (cases ls)
    case Nil
    with Cons.prems show ?thesis by (simp add: lf_free_def str_lines_single)
  next
    case (Cons m ms)
    with Cons.IH Cons.prems show ?thesis
      by (simp add: join_Cons lf_free_def str_lines_crlf)
  qed
qed simp

lemma head_line_join: "lf_free ls \<Longrightarrow> head_line (join crlf ls) = (case ls of [] \<Rightarrow> [] | l # _ \<Rightarrow> l)"
  by (auto simp: head_line_def str_lines_join split: list.splits if_splits)

lemma lf_free_str_lines: "lf_free (str_lines s)"
  by (auto simp: lf_free_def dest: str_lines_no_lf)

lemma head_line_no_lf: "10 \<notin> set (head_line s)"
  using str_lines_no_lf [of "hd (str_lines s)" s] by (cases "str_lines s") (auto simp: head_line_def)

lemma str_lines_eq_Nil: "str_lines s = [] \<longleftrightarrow> s = []"
  by (subst str_lines.simps) (auto split: option.splits)


section \<open>Laws of searching, trimming and case\<close>

lemma lower_lower [simp]: "to_ascii_lowercase (to_ascii_lowercase c) = to_ascii_lowercase c"
  by (simp add: to_ascii_lowercase_def)

lemma lower_upper [simp]: "to_ascii_lowercase (to_ascii_uppercase c) = to_ascii_lowercase c"
  by (simp add: to_ascii_lowercase_def to_ascii_uppercase_def)

lemma eq_ignore_refl [simp]: "eq_ignore_ascii_case s s"
  by (simp add: eq_ignore_ascii_case_def)

lemma eq_ignore_sym: "eq_ignore_ascii_case a b \<longleftrightarrow> eq_ignore_ascii_case b a"
  by (auto simp: eq_ignore_ascii_case_def)

lemma eq_ignore_trans: "eq_ignore_ascii_case a b \<Longrightarrow> eq_ignore_ascii_case b c \<Longrightarrow> eq_ignore_ascii_case a c"
  by (simp add: eq_ignore_ascii_case_def)

lemma trim_end_matches_idem [simp]: "trim_end_matches d (trim_end_matches d s) = trim_end_matches d s"
  by (simp add: trim_end_matches_def)

lemma trim_end_matches_snoc [simp]: "trim_end_matches d (s @ [d]) = trim_end_matches d s"
  by (simp add: trim_end_matches_def)


section \<open>Laws of numbers\<close>

lemma digits_value_snoc: "digits_value (ds @ [d]) = 10 * digits_value ds + (d - 48)"
  by (simp add: digits_value_def)

lemma digits_value_show [simp]: "digits_value (show_int n) = n"
proof (induction n rule: show_int.induct)
  case (1 n)
  show ?case
  proof (cases "n < 10")
    case True
    then show ?thesis by (subst show_int.simps) (simp add: digits_value_def)
  next
    case False
    with 1 show ?thesis by (subst show_int.simps) (simp add: digits_value_snoc)
  qed
qed

lemma show_int_digits: "0 \<le> n \<Longrightarrow> list_all is_digit (show_int n) \<and> show_int n \<noteq> []"
proof (induction n rule: show_int.induct)
  case (1 n)
  have "is_digit (48 + m)" if "0 \<le> m" "m < 10" for m
    using that by (simp add: is_digit_def)
  with 1 show ?case
    by (cases "n < 10") (simp_all add: show_int.simps [of n])
qed

lemma parse_uint_digits:
  assumes "list_all is_digit ds" and "ds \<noteq> []"
  shows "parse_uint m ds = (if digits_value ds \<le> m then Some (digits_value ds) else None)"
  using assms by (auto simp: parse_uint_def is_digit_def split: list.splits)

lemma parse_uint_show: "0 \<le> n \<Longrightarrow> parse_uint m (show_int n) = (if n \<le> m then Some n else None)"
  using show_int_digits [of n] by (simp add: parse_uint_digits)

lemma parse_uint_bound: "parse_uint m s = Some n \<Longrightarrow> n \<le> m"
  by (auto simp: parse_uint_def Let_def split: if_splits)

lemma parse_u16_show: "parse_u16 (show_int (uint p)) = Some p"
proof -
  have "uint p \<le> 65535"
    using unsigned_less [of p, where ?'a = int] by simp
  then show ?thesis by (simp add: parse_u16_def parse_uint_show)
qed

end
