(* ===== verification/Ip_Addr.thy ===== *)
theory Ip_Addr
  imports Rust_Str
begin

text \<open>
  The part of \<^verbatim>\<open>std::net\<close> the program uses: IP addresses, the loopback and unspecified tests,
  socket addresses, and the standard library's address parser (\<open>str::parse\<close>), which the proxy
  uses to recognise IP literals. A parser maps the remaining text to a value and the text after
  it, or to \<open>None\<close>, in which case nothing is consumed.
\<close>

text \<open>An IPv6 address is the list of its eight 16-bit segments.\<close>

datatype ip_addr = V4 byte byte byte byte | V6 "u16 list"

record socket_addr =
  sa_ip :: ip_addr
  sa_port :: u16

definition is_ipv6 :: "ip_addr \<Rightarrow> bool" where
  "is_ipv6 a = (case a of V4 _ _ _ _ \<Rightarrow> False | V6 _ \<Rightarrow> True)"

definition is_loopback :: "ip_addr \<Rightarrow> bool" where
  "is_loopback a = (case a of V4 x _ _ _ \<Rightarrow> x = 127 | V6 segs \<Rightarrow> segs = [0, 0, 0, 0, 0, 0, 0, 1])"

definition is_unspecified :: "ip_addr \<Rightarrow> bool" where
  "is_unspecified a =
     (case a of V4 x y z w \<Rightarrow> x = 0 \<and> y = 0 \<and> z = 0 \<and> w = 0 | V6 segs \<Rightarrow> segs = [0, 0, 0, 0, 0, 0, 0, 0])"


section \<open>The address parser\<close>

type_synonym 'a addr_parser = "rstr \<Rightarrow> ('a \<times> rstr) option"

definition read_given_char :: "rchar \<Rightarrow> unit addr_parser" where
  "read_given_char c s = (case s of [] \<Rightarrow> None | d # ds \<Rightarrow> if d = c then Some ((), ds) else None)"

definition digit_value :: "rchar \<Rightarrow> int option" where
  "digit_value c =
     (if 48 \<le> c \<and> c \<le> 57 then Some (c - 48)
      else if 97 \<le> c \<and> c \<le> 122 then Some (c - 97 + 10)
      else if 65 \<le> c \<and> c \<le> 90 then Some (c - 65 + 10)
      else None)"

definition is_radix_digit :: "int \<Rightarrow> rchar \<Rightarrow> bool" where
  "is_radix_digit radix c = (case digit_value c of None \<Rightarrow> False | Some d \<Rightarrow> d < radix)"

definition radix_value :: "int \<Rightarrow> rstr \<Rightarrow> int" where
  "radix_value radix ds = foldl (\<lambda>a d. radix * a + (case digit_value d of None \<Rightarrow> 0 | Some v \<Rightarrow> v)) 0 ds"

text \<open>
  \<open>read_number\<close>: all the digits that follow, at most \<open>max_digits\<close> of them, with or without
  leading zeros, and a value that fits the target type.
\<close>

definition read_number :: "int \<Rightarrow> nat option \<Rightarrow> bool \<Rightarrow> int \<Rightarrow> int addr_parser" where
  "read_number radix max_digits allow_zero_prefix max_value s =
     (let ds = takeWhile (is_radix_digit radix) s in
      if ds = [] then None
      else if (case max_digits of None \<Rightarrow> False | Some m \<Rightarrow> length ds > m) then None
      else if \<not> allow_zero_prefix \<and> hd ds = 48 \<and> length ds > 1 then None
      else if radix_value radix ds > max_value then None
      else Some (radix_value radix ds, dropWhile (is_radix_digit radix) s))"

definition read_separator :: "rchar \<Rightarrow> bool \<Rightarrow> 'a addr_parser \<Rightarrow> 'a addr_parser" where
  "read_separator sep first inner s =
     (if first then inner s
      else case read_given_char sep s of None \<Rightarrow> None | Some (_, s) \<Rightarrow> inner s)"

definition read_octet :: "bool \<Rightarrow> byte addr_parser" where
  "read_octet first s =
     map_option (\<lambda>(n, r). (word_of_int n, r))
       (read_separator 46 first (read_number 10 (Some 3) False 255) s)"

definition read_ipv4_addr :: "(byte \<times> byte \<times> byte \<times> byte) addr_parser" where
  "read_ipv4_addr s =
     (case read_octet True s of None \<Rightarrow> None | Some (a, s) \<Rightarrow>
      case read_octet False s of None \<Rightarrow> None | Some (b, s) \<Rightarrow>
      case read_octet False s of None \<Rightarrow> None | Some (c, s) \<Rightarrow>
      case read_octet False s of None \<Rightarrow> None | Some (d, s) \<Rightarrow> Some ((a, b, c, d), s))"

text \<open>
  \<open>read_groups\<close>: at most \<open>n\<close> more groups after the groups \<open>gs\<close>; where two or more
  fit, an embedded IPv4 address ends the sequence.
\<close>

fun read_groups :: "nat \<Rightarrow> u16 list \<Rightarrow> rstr \<Rightarrow> u16 list \<times> bool \<times> rstr" where
  "read_groups 0 gs s = (gs, False, s)"
| "read_groups (Suc n) gs s =
     (case (if 0 < n then read_separator 58 (gs = []) read_ipv4_addr s else None) of
        Some ((a, b, c, d), r) \<Rightarrow> (gs @ [from_be_bytes a b, from_be_bytes c d], True, r)
      | None \<Rightarrow>
        (case read_separator 58 (gs = []) (read_number 16 (Some 4) True 65535) s of
           Some (g, r) \<Rightarrow> read_groups n (gs @ [word_of_int g]) r
         | None \<Rightarrow> (gs, False, s)))"

definition read_ipv6_addr :: "u16 list addr_parser" where
  "read_ipv6_addr s =
     (case read_groups 8 [] s of (head, head_ipv4, s) \<Rightarrow>
      if length head = 8 then Some (head, s)
      else if head_ipv4 then None
      else case read_given_char 58 s of None \<Rightarrow> None | Some (_, s) \<Rightarrow>
           case read_given_char 58 s of None \<Rightarrow> None | Some (_, s) \<Rightarrow>
           (case read_groups (8 - (length head + 1)) [] s of (tail, _, s) \<Rightarrow>
            Some (head @ replicate (8 - length head - length tail) 0 @ tail, s)))"

definition read_ip_addr :: "ip_addr addr_parser" where
  "read_ip_addr s =
     (case read_ipv4_addr s of
        Some ((a, b, c, d), r) \<Rightarrow> Some (V4 a b c d, r)
      | None \<Rightarrow> map_option (\<lambda>(segs, r). (V6 segs, r)) (read_ipv6_addr s))"

text \<open>\<open>str::parse\<close>: the parser must consume the whole text.\<close>

definition parse_with :: "'a addr_parser \<Rightarrow> rstr \<Rightarrow> 'a option" where
  "parse_with p s = (case p s of Some (x, []) \<Rightarrow> Some x | _ \<Rightarrow> None)"

definition parse_ip :: "rstr \<Rightarrow> ip_addr option" where
  "parse_ip s = parse_with read_ip_addr s"

definition read_port :: "u16 addr_parser" where
  "read_port s =
     (case read_given_char 58 s of None \<Rightarrow> None
      | Some (_, s) \<Rightarrow> map_option (\<lambda>(n, r). (word_of_int n, r)) (read_number 10 None True 65535 s))"

definition read_scope_id :: "rstr \<Rightarrow> rstr" where
  "read_scope_id s =
     (case read_given_char 37 s of None \<Rightarrow> s
      | Some (_, r) \<Rightarrow> (case read_number 10 None True 4294967295 r of None \<Rightarrow> s | Some (_, r) \<Rightarrow> r))"

definition read_socket_addr_v4 :: "socket_addr addr_parser" where
  "read_socket_addr_v4 s =
     (case read_ipv4_addr s of None \<Rightarrow> None
      | Some ((a, b, c, d), s) \<Rightarrow> map_option (\<lambda>(p, r). (\<lparr>sa_ip = V4 a b c d, sa_port = p\<rparr>, r)) (read_port s))"

definition read_socket_addr_v6 :: "socket_addr addr_parser" where
  "read_socket_addr_v6 s =
     (case read_given_char 91 s of None \<Rightarrow> None | Some (_, s) \<Rightarrow>
      case read_ipv6_addr s of None \<Rightarrow> None | Some (segs, s) \<Rightarrow>
      case read_given_char 93 (read_scope_id s) of None \<Rightarrow> None | Some (_, s) \<Rightarrow>
      map_option (\<lambda>(p, r). (\<lparr>sa_ip = V6 segs, sa_port = p\<rparr>, r)) (read_port s))"

definition parse_socket_addr :: "rstr \<Rightarrow> socket_addr option" where
  "parse_socket_addr s =
     parse_with (\<lambda>s. case read_socket_addr_v4 s of None \<Rightarrow> read_socket_addr_v6 s | Some x \<Rightarrow> Some x) s"


section \<open>What the parsers accept\<close>

text \<open>An IPv6 address has eight segments.\<close>

definition wf_ip :: "ip_addr \<Rightarrow> bool" where
  "wf_ip a = (case a of V4 _ _ _ _ \<Rightarrow> True | V6 segs \<Rightarrow> length segs = 8)"

lemma read_groups_length:
  "read_groups n gs s = (gs', v4, r) \<Longrightarrow> length gs \<le> length gs' \<and> length gs' \<le> length gs + n"
proof (induction n arbitrary: gs s)
  case 0
  then show ?case by simp
next
  case (Suc n)
  show ?case
  proof (cases "if 0 < n then read_separator 58 (gs = []) read_ipv4_addr s else None")
    case None
    show ?thesis
    proof (cases "read_separator 58 (gs = []) (read_number 16 (Some 4) True 65535) s")
      case None
      with Suc.prems \<open>(if 0 < n then _ else None) = None\<close> show ?thesis
        by (simp split: if_splits)
    next
      case (Some p)
      with Suc.prems \<open>(if 0 < n then _ else None) = None\<close>
      have "read_groups n (gs @ [word_of_int (fst p)]) (snd p) = (gs', v4, r)"
        by (cases p) (simp split: if_splits)
      from Suc.IH [OF this] show ?thesis by simp
    qed
  next
    case (Some q)
    with Suc.prems show ?thesis
      by (cases q) (auto split: if_splits)
  qed
qed

lemma read_ipv6_length: "read_ipv6_addr s = Some (segs, r) \<Longrightarrow> length segs = 8"
  unfolding read_ipv6_addr_def
  by (auto split: prod.splits if_splits option.splits dest!: read_groups_length)

lemma parse_ip_wf: "parse_ip s = Some a \<Longrightarrow> wf_ip a"
  unfolding parse_ip_def parse_with_def read_ip_addr_def wf_ip_def
  by (auto split: option.splits list.splits dest!: read_ipv6_length)



section \<open>Printing and reading back\<close>

definition show_ipv4 :: "byte \<Rightarrow> byte \<Rightarrow> byte \<Rightarrow> byte \<Rightarrow> rstr" where
  "show_ipv4 a b c d =
     show_int (uint a) @ [46] @ show_int (uint b) @ [46] @ show_int (uint c) @ [46] @ show_int (uint d)"

lemma is_digit_radix: "is_digit c \<Longrightarrow> digit_value c = Some (c - 48) \<and> is_radix_digit 10 c"
  by (simp add: is_digit_def digit_value_def is_radix_digit_def)

lemma radix_value_digits: "list_all is_digit ds \<Longrightarrow> radix_value 10 ds = digits_value ds"
  by (induction ds rule: rev_induct) (simp_all add: radix_value_def digits_value_def is_digit_radix)

lemma show_int_hd: "0 < n \<Longrightarrow> hd (show_int n) \<noteq> 48"
proof (induction n rule: show_int.induct)
  case (1 n)
  then show ?case
    by (subst show_int.simps) (use show_int_digits [of "n div 10"] in \<open>auto simp: hd_append\<close>)
qed

lemma length_show_int: "n < 1000 \<Longrightarrow> length (show_int n) \<le> 3"
proof -
  assume "n < 1000"
  moreover have s: "n < 10 \<Longrightarrow> length (show_int n) = 1" for n
    by (subst show_int.simps) simp
  moreover have h: "n < 100 \<Longrightarrow> length (show_int n) \<le> 2" for n
    using s [of n] s [of "n div 10"] by (cases "n < 10") (simp, subst show_int.simps, simp)
  ultimately show ?thesis
    using s [of n] h [of "n div 10"] by (cases "n < 10") (simp, subst show_int.simps, simp)
qed

lemma read_number_show:
  assumes "0 \<le> n" and "n \<le> m" and "r = [] \<or> \<not> is_radix_digit 10 (hd r)"
    and "(case k of None \<Rightarrow> True | Some k \<Rightarrow> length (show_int n) \<le> k)"
  shows "read_number 10 k z m (show_int n @ r) = Some (n, r)"
proof -
  let ?ds = "show_int n"
  note d = show_int_digits [OF assms(1)]
  have all: "\<forall>c \<in> set ?ds. is_radix_digit 10 c"
    using d is_digit_radix by (auto simp: list_all_iff)
  have t: "takeWhile (is_radix_digit 10) (?ds @ r) = ?ds" "dropWhile (is_radix_digit 10) (?ds @ r) = r"
    using all assms(3) by (cases r; simp)+
  have v: "radix_value 10 ?ds = n"
    using d by (simp add: radix_value_digits)
  have z: "\<not> (hd ?ds = 48 \<and> 1 < length ?ds)"
  proof (cases "n = 0")
    case True
    then have "?ds = [48]" by (subst show_int.simps) simp
    then show ?thesis by simp
  next
    case False
    with show_int_hd [of n] assms(1) show ?thesis by simp
  qed
  show ?thesis
    using d z assms(2,4) by (auto simp: read_number_def t v Let_def split: option.splits)
qed

lemma uint_byte_bounds: "0 \<le> uint (b :: byte)" "uint b \<le> 255" "length (show_int (uint b)) \<le> 3"
proof -
  show "0 \<le> uint b" by simp
  show u: "uint b \<le> 255" using unsigned_less [of b, where ?'a = int] by simp
  then show "length (show_int (uint b)) \<le> 3" by (intro length_show_int) simp
qed

lemma read_octet_show:
  assumes "r = [] \<or> \<not> is_radix_digit 10 (hd r)"
  shows "read_octet True (show_int (uint b) @ r) = Some (b, r)"
    and "read_octet False (46 # show_int (uint b) @ r) = Some (b, r)"
  using read_number_show [of "uint b" 255 r "Some 3" False] assms uint_byte_bounds [of b]
  by (simp_all add: read_octet_def read_separator_def read_given_char_def)

lemma not_digit_dot [simp]: "\<not> is_radix_digit 10 46" "\<not> is_radix_digit 10 58"
  by (simp_all add: is_radix_digit_def digit_value_def)

lemma read_ipv4_show:
  assumes "r = [] \<or> \<not> is_radix_digit 10 (hd r)"
  shows "read_ipv4_addr (show_ipv4 a b c d @ r) = Some ((a, b, c, d), r)"
  using assms by (simp add: read_ipv4_addr_def show_ipv4_def read_octet_show)

lemma parse_ip_show: "parse_ip (show_ipv4 a b c d) = Some (V4 a b c d)"
  using read_ipv4_show [of "[]" a b c d] by (simp add: parse_ip_def parse_with_def read_ip_addr_def)

lemma parse_socket_addr_show:
  "parse_socket_addr (show_ipv4 a b c d @ [58] @ show_int (uint (p :: u16))) =
     Some \<lparr>sa_ip = V4 a b c d, sa_port = p\<rparr>"
proof -
  have "uint p \<le> 65535"
    using unsigned_less [of p, where ?'a = int] by simp
  then have "read_port (58 # show_int (uint p)) = Some (p, [])"
    using read_number_show [of "uint p" 65535 "[]" None True] by (simp add: read_port_def read_given_char_def)
  then show ?thesis
    using read_ipv4_show [of "58 # show_int (uint p)" a b c d]
    by (simp add: parse_socket_addr_def parse_with_def read_socket_addr_v4_def)
qed

end
