(* ===== verification/Net_Io.thy ===== *)
theory Net_Io
  imports Ip_Addr
begin

text \<open>
  Input and output. The operating system, tokio and the random generator are not code of the
  repository: they are a parameter \<open>env\<close>, a record of functions that answer each call from the
  history of what happened on the connection so far. Nothing is assumed of the answers but what
  the calls document, and that is built into the operations below: a read returns at most the
  size of its buffer, a vectored write accepts at most what it is offered, a successful
  \<open>write_all\<close> has written everything, a failed one some prefix, a random number lies in its range.

  An operation is a function of the history that returns a result and the longer history:
  \<open>Ok\<close>, an error the question mark operator returns at once, or a panic. All properties are
  stated over the events that are appended, for every environment. A call that never returns
  is not an outcome: the history up to such a call is the history of its predecessors.
\<close>

section \<open>Events, results, environments\<close>

text \<open>The connections of one client task: the client, the target server, the probe socket.\<close>

datatype sock = Client | Remote | Probe

datatype sock_option =
    Nodelay | Reuseaddr | Keepalive nat | Recv_Buffer nat | Send_Buffer nat | Ttl "32 word"
  | Bound socket_addr

datatype event =
    Received sock bytes
  | Wrote sock bytes
  | Flushed sock
  | Failed sock
  | Opened sock bool
  | Option_Set sock sock_option
  | Option_Failed sock sock_option
  | Connected sock socket_addr
  | Looked_Up rstr "socket_addr list option"
  | Udp_Bound
  | Udp_Sent socket_addr bytes
  | Udp_Received "bytes option"
  | Drew nat nat nat
  | Slept nat
  | Tunnelled sock sock

datatype io_error = Write_Zero | Os_Error nat

datatype 'a res = Ok 'a | Err io_error | Panicked

type_synonym history = "event list"
type_synonym 'a io = "history \<Rightarrow> 'a res \<times> history"

record env =
  on_read :: "history \<Rightarrow> sock \<Rightarrow> io_error + bytes"
  on_write_all :: "history \<Rightarrow> sock \<Rightarrow> bytes \<Rightarrow> (io_error \<times> nat) option"
  on_write_vectored :: "history \<Rightarrow> sock \<Rightarrow> bytes list \<Rightarrow> io_error + nat"
  on_flush :: "history \<Rightarrow> sock \<Rightarrow> io_error option"
  on_open :: "history \<Rightarrow> sock \<Rightarrow> bool \<Rightarrow> io_error option"
  on_connect :: "history \<Rightarrow> sock \<Rightarrow> socket_addr \<Rightarrow> io_error option"
  on_option :: "history \<Rightarrow> sock \<Rightarrow> sock_option \<Rightarrow> bool"
  on_lookup :: "history \<Rightarrow> rstr \<Rightarrow> io_error + socket_addr list"
  on_udp_bind :: "history \<Rightarrow> io_error option"
  on_udp_send :: "history \<Rightarrow> socket_addr \<Rightarrow> bytes \<Rightarrow> io_error option"
  on_udp_recv :: "history \<Rightarrow> bytes option"
  on_random :: "history \<Rightarrow> nat"
  on_tunnel :: "history \<Rightarrow> io_error option"


section \<open>Sequencing\<close>

definition okI :: "'a \<Rightarrow> 'a io" where
  "okI x h = (Ok x, h)"

definition errI :: "io_error \<Rightarrow> 'a io" where
  "errI e h = (Err e, h)"

text \<open>Sequencing with the question mark operator.\<close>

definition bindI :: "'a io \<Rightarrow> ('a \<Rightarrow> 'b io) \<Rightarrow> 'b io" where
  "bindI m f h =
     (case m h of (Ok x, h') \<Rightarrow> f x h' | (Err e, h') \<Rightarrow> (Err e, h') | (Panicked, h') \<Rightarrow> (Panicked, h'))"

text \<open>The result of a call as a value, for a \<open>match\<close>, an \<open>ok()\<close> or a discarded result.\<close>

definition attempt :: "'a io \<Rightarrow> (io_error + 'a) io" where
  "attempt m h =
     (case m h of (Ok x, h') \<Rightarrow> (Ok (Inr x), h') | (Err e, h') \<Rightarrow> (Ok (Inl e), h') | (Panicked, h') \<Rightarrow> (Panicked, h'))"

definition liftR :: "'a rust \<Rightarrow> 'a io" where
  "liftR r h = (case r of Panic \<Rightarrow> (Panicked, h) | Val x \<Rightarrow> (Ok x, h))"

lemma bindI_cong [fundef_cong]:
  assumes "m h = m' h'" and "\<And>x h''. m' h' = (Ok x, h'') \<Longrightarrow> f x h'' = f' x h''"
  shows "bindI m f h = bindI m' f' h'"
  using assms by (auto simp: bindI_def split: res.splits prod.splits)

lemma bindI_liftR [simp]: "bindI (liftR (Val x)) f = f x"
  by (rule ext) (simp add: bindI_def liftR_def)

lemma bindI_ok [simp]: "bindI (okI x) f = f x"
  by (rule ext) (simp add: bindI_def okI_def)


section \<open>The calls\<close>

definition tcp_read :: "env \<Rightarrow> sock \<Rightarrow> nat \<Rightarrow> bytes io" where
  "tcp_read env s max_len h =
     (case on_read env h s of
        Inl e \<Rightarrow> (Err e, h @ [Failed s])
      | Inr bs \<Rightarrow> (Ok (take max_len bs), h @ [Received s (take max_len bs)]))"

definition tcp_write_all :: "env \<Rightarrow> sock \<Rightarrow> bytes \<Rightarrow> unit io" where
  "tcp_write_all env s data h =
     (case on_write_all env h s data of
        None \<Rightarrow> (Ok (), h @ [Wrote s data])
      | Some (e, k) \<Rightarrow> (Err e, h @ [Wrote s (take k data), Failed s]))"

text \<open>One \<open>writev\<close>: how many of the offered bytes were accepted.\<close>

definition tcp_write_vectored :: "env \<Rightarrow> sock \<Rightarrow> bytes list \<Rightarrow> nat io" where
  "tcp_write_vectored env s bufs h =
     (case on_write_vectored env h s bufs of
        Inl e \<Rightarrow> (Err e, h @ [Failed s])
      | Inr k \<Rightarrow> let n = min k (length (concat bufs)) in (Ok n, h @ [Wrote s (take n (concat bufs))]))"

definition answered :: "io_error option \<Rightarrow> event \<Rightarrow> event \<Rightarrow> unit io" where
  "answered a good bad h = (case a of None \<Rightarrow> (Ok (), h @ [good]) | Some e \<Rightarrow> (Err e, h @ [bad]))"

definition tcp_flush :: "env \<Rightarrow> sock \<Rightarrow> unit io" where
  "tcp_flush env s h = answered (on_flush env h s) (Flushed s) (Failed s) h"

definition tcp_open :: "env \<Rightarrow> sock \<Rightarrow> bool \<Rightarrow> unit io" where
  "tcp_open env s v6 h = answered (on_open env h s v6) (Opened s v6) (Failed s) h"

definition tcp_connect :: "env \<Rightarrow> sock \<Rightarrow> socket_addr \<Rightarrow> unit io" where
  "tcp_connect env s addr h = answered (on_connect env h s addr) (Connected s addr) (Failed s) h"

text \<open>
  Socket options and local binds: the system may refuse them, and the program drops the result (\<open>.ok()\<close>), so
  the call always returns; the history tells whether the option is in force.
\<close>

definition set_option :: "env \<Rightarrow> sock \<Rightarrow> sock_option \<Rightarrow> unit io" where
  "set_option env s opt h = (Ok (), h @ [if on_option env h s opt then Option_Set s opt else Option_Failed s opt])"

definition lookup_host :: "env \<Rightarrow> rstr \<Rightarrow> socket_addr list io" where
  "lookup_host env name h =
     (case on_lookup env h name of
        Inl e \<Rightarrow> (Err e, h @ [Looked_Up name None])
      | Inr addrs \<Rightarrow> (Ok addrs, h @ [Looked_Up name (Some addrs)]))"

definition udp_bind :: "env \<Rightarrow> unit io" where
  "udp_bind env h = (case on_udp_bind env h of None \<Rightarrow> (Ok (), h @ [Udp_Bound]) | Some e \<Rightarrow> (Err e, h))"

definition udp_send_to :: "env \<Rightarrow> bytes \<Rightarrow> socket_addr \<Rightarrow> unit io" where
  "udp_send_to env msg addr h =
     (case on_udp_send env h addr msg of
        None \<Rightarrow> (Ok (), h @ [Udp_Sent addr msg]) | Some e \<Rightarrow> (Err e, h))"

text \<open>\<open>timeout(recv_from)\<close>: a datagram of at most \<open>max_len\<close> bytes, or nothing (an error or the timeout).\<close>

definition udp_recv :: "env \<Rightarrow> nat \<Rightarrow> bytes option io" where
  "udp_recv env max_len h =
     (let r = map_option (take max_len) (on_udp_recv env h) in (Ok r, h @ [Udp_Received r]))"

text \<open>\<open>fastrand\<close> on an inclusive range: an empty range panics.\<close>

definition random_range :: "env \<Rightarrow> nat \<Rightarrow> nat \<Rightarrow> nat io" where
  "random_range env lo hi h =
     (if hi < lo then (Panicked, h)
      else let v = lo + on_random env h mod (hi - lo + 1) in (Ok v, h @ [Drew lo hi v]))"

definition sleep_ms :: "nat \<Rightarrow> unit io" where
  "sleep_ms n h = (Ok (), h @ [Slept n])"

definition copy_bidirectional :: "env \<Rightarrow> sock \<Rightarrow> sock \<Rightarrow> unit io" where
  "copy_bidirectional env a b h =
     (case on_tunnel env h of
        None \<Rightarrow> (Ok (), h @ [Tunnelled a b]) | Some e \<Rightarrow> (Err e, h @ [Tunnelled a b]))"


section \<open>Reasoning about operations\<close>

text \<open>
  \<open>does P m\<close>: from every history the events \<open>m\<close> appends and its result satisfy \<open>P\<close>.
\<close>

definition does :: "(history \<Rightarrow> 'a res \<Rightarrow> bool) \<Rightarrow> 'a io \<Rightarrow> bool" where
  "does P m \<longleftrightarrow> (\<forall>h. \<exists>es. snd (m h) = h @ es \<and> P es (fst (m h)))"

lemma doesI: "(\<And>h. \<exists>es r. m h = (r, h @ es) \<and> P es r) \<Longrightarrow> does P m"
  unfolding does_def by (metis fst_conv snd_conv)

lemma doesD: "does P m \<Longrightarrow> \<exists>es r. m h = (r, h @ es) \<and> P es r"
  unfolding does_def by (metis prod.collapse)

lemma does_mono: "does P m \<Longrightarrow> (\<And>es r. P es r \<Longrightarrow> Q es r) \<Longrightarrow> does Q m"
  unfolding does_def by blast

lemma does_conj: "does P m \<Longrightarrow> does Q m \<Longrightarrow> does (\<lambda>es r. P es r \<and> Q es r) m"
  unfolding does_def by (metis same_append_eq)

lemma does_bind:
  assumes m: "does P m" and f: "\<And>es x. P es (Ok x) \<Longrightarrow> does (Q x) (f x)"
    and e: "\<And>es e. P es (Err e) \<Longrightarrow> R es (Err e)" and p: "\<And>es. P es Panicked \<Longrightarrow> R es Panicked"
    and c: "\<And>es x es' r. P es (Ok x) \<Longrightarrow> Q x es' r \<Longrightarrow> R (es @ es') r"
  shows "does R (bindI m f)"
proof (rule doesI)
  fix h
  obtain es r where r: "m h = (r, h @ es)" "P es r"
    using doesD [OF m] by blast
  show "\<exists>es r. bindI m f h = (r, h @ es) \<and> R es r"
  proof (cases r)
    case (Ok x)
    obtain es' r' where "f x (h @ es) = (r', (h @ es) @ es')" "Q x es' r'"
      using doesD [OF f] r(2) Ok by metis
    with r Ok c [of es x es' r'] show ?thesis by (simp add: bindI_def)
  qed (use r e p in \<open>auto simp: bindI_def\<close>)
qed

lemma does_attempt:
  assumes "does P m" and "\<And>es x. P es (Ok x) \<Longrightarrow> R es (Ok (Inr x))"
    and "\<And>es e. P es (Err e) \<Longrightarrow> R es (Ok (Inl e))" and "\<And>es. P es Panicked \<Longrightarrow> R es Panicked"
  shows "does R (attempt m)"
proof (rule doesI)
  fix h
  obtain es r where "m h = (r, h @ es)" "P es r"
    using doesD [OF assms(1)] by blast
  with assms(2-4) show "\<exists>es r. attempt m h = (r, h @ es) \<and> R es r"
    by (cases r) (auto simp: attempt_def)
qed

lemma does_ok: "P [] (Ok x) \<Longrightarrow> does P (okI x)"
  by (rule doesI) (simp add: okI_def)

lemma does_err: "P [] (Err e) \<Longrightarrow> does P (errI e)"
  by (rule doesI) (simp add: errI_def)

lemma does_liftR: "safe r \<Longrightarrow> (\<And>x. r = Val x \<Longrightarrow> P [] (Ok x)) \<Longrightarrow> does P (liftR r)"
  by (rule doesI) (cases r; auto simp: liftR_def)



section \<open>Events an operation may cause\<close>

text \<open>\<open>emits P m\<close>: \<open>m\<close> does not panic and causes only events that satisfy \<open>P\<close>.\<close>

definition emits :: "(event \<Rightarrow> bool) \<Rightarrow> 'a io \<Rightarrow> bool" where
  "emits P m \<longleftrightarrow> does (\<lambda>es r. list_all P es \<and> r \<noteq> Panicked) m"

named_theorems emits_intros "introduction rules for emits"

lemma emits_bind [emits_intros]: "emits P m \<Longrightarrow> (\<And>x. emits P (f x)) \<Longrightarrow> emits P (bindI m f)"
  unfolding emits_def by (rule does_bind, assumption) auto

lemma emits_attempt [emits_intros]: "emits P m \<Longrightarrow> emits P (attempt m)"
  unfolding emits_def by (rule does_attempt, assumption) auto

lemma emits_ok [emits_intros]: "emits P (okI x)"
  unfolding emits_def by (rule does_ok) simp

lemma emits_err [emits_intros]: "emits P (errI e)"
  unfolding emits_def by (rule does_err) simp

lemma emits_liftR [emits_intros]: "safe r \<Longrightarrow> emits P (liftR r)"
  unfolding emits_def by (rule does_liftR) simp_all

lemma emits_if [emits_intros]: "(b \<Longrightarrow> emits P m) \<Longrightarrow> (\<not> b \<Longrightarrow> emits P n) \<Longrightarrow> emits P (if b then m else n)"
  by simp

lemma emits_option [emits_intros]:
  "(x = None \<Longrightarrow> emits P m) \<Longrightarrow> (\<And>y. x = Some y \<Longrightarrow> emits P (f y)) \<Longrightarrow>
   emits P (case x of None \<Rightarrow> m | Some y \<Rightarrow> f y)"
  by (cases x) auto

lemma emits_sum [emits_intros]:
  "(\<And>e. x = Inl e \<Longrightarrow> emits P (f e)) \<Longrightarrow> (\<And>y. x = Inr y \<Longrightarrow> emits P (g y)) \<Longrightarrow>
   emits P (case x of Inl e \<Rightarrow> f e | Inr y \<Rightarrow> g y)"
  by (cases x) auto

lemma emits_mono: "emits P m \<Longrightarrow> (\<And>e. P e \<Longrightarrow> Q e) \<Longrightarrow> emits Q m"
  unfolding emits_def by (erule does_mono) (auto simp: list_all_iff)

text \<open>What the calls themselves cause.\<close>

lemma does_read:
  "does (\<lambda>es r. case r of Ok bs \<Rightarrow> es = [Received s bs] \<and> length bs \<le> max_len | Err _ \<Rightarrow> es = [Failed s]
     | Panicked \<Rightarrow> False) (tcp_read env s max_len)"
  by (rule doesI) (auto simp: tcp_read_def split: sum.splits)

lemma does_write_all:
  "does (\<lambda>es r. case r of Ok _ \<Rightarrow> es = [Wrote s data] | Err _ \<Rightarrow> \<exists>k. es = [Wrote s (take k data), Failed s]
     | Panicked \<Rightarrow> False) (tcp_write_all env s data)"
  by (rule doesI) (auto simp: tcp_write_all_def split: option.splits)

lemma does_write_vectored:
  "does (\<lambda>es r. case r of Ok n \<Rightarrow> n \<le> length (concat bufs) \<and> es = [Wrote s (take n (concat bufs))]
     | Err _ \<Rightarrow> es = [Failed s] | Panicked \<Rightarrow> False) (tcp_write_vectored env s bufs)"
  by (rule doesI) (auto simp: tcp_write_vectored_def Let_def split: sum.splits)

lemma does_answered:
  "does (\<lambda>es r. case r of Ok _ \<Rightarrow> es = [good] | Err _ \<Rightarrow> es = [bad] | Panicked \<Rightarrow> False)
     (\<lambda>h. answered (a h) good bad h)"
  by (rule doesI) (auto simp: answered_def split: option.splits)

lemma does_random:
  assumes "lo \<le> hi"
  shows "does (\<lambda>es r. \<exists>v. r = Ok v \<and> lo \<le> v \<and> v \<le> hi \<and> es = [Drew lo hi v]) (random_range env lo hi)"
proof (rule doesI)
  fix h
  let ?v = "lo + on_random env h mod (hi - lo + 1)"
  have "on_random env h mod (hi - lo + 1) < hi - lo + 1"
    by (rule mod_less_divisor) simp
  then have "lo \<le> ?v" "?v \<le> hi" using assms by linarith+
  then show "\<exists>es r. random_range env lo hi h = (r, h @ es) \<and>
      (\<exists>v. r = Ok v \<and> lo \<le> v \<and> v \<le> hi \<and> es = [Drew lo hi v])"
    using assms by (auto simp: random_range_def Let_def)
qed

lemma does_udp_recv:
  "does (\<lambda>es r. \<exists>d. r = Ok d \<and> es = [Udp_Received d] \<and> (\<forall>bs. d = Some bs \<longrightarrow> length bs \<le> max_len))
     (udp_recv env max_len)"
  by (rule doesI) (auto simp: udp_recv_def Let_def)

lemma emits_read [emits_intros]: "(\<And>bs. P (Received s bs)) \<Longrightarrow> P (Failed s) \<Longrightarrow> emits P (tcp_read env s max_len)"
  unfolding emits_def by (rule does_mono [OF does_read]) (auto split: res.splits)

lemma emits_write_all [emits_intros]:
  "(\<And>k. P (Wrote s (take k data))) \<Longrightarrow> P (Failed s) \<Longrightarrow> emits P (tcp_write_all env s data)"
  unfolding emits_def
  by (rule does_mono [OF does_write_all]) (auto split: res.splits, metis order_refl take_all)

lemma emits_write_vectored [emits_intros]:
  "(\<And>k. P (Wrote s (take k (concat bufs)))) \<Longrightarrow> P (Failed s) \<Longrightarrow> emits P (tcp_write_vectored env s bufs)"
  unfolding emits_def by (rule does_mono [OF does_write_vectored]) (auto split: res.splits)

lemma emits_answered: "P good \<Longrightarrow> P bad \<Longrightarrow> emits P (\<lambda>h. answered (a h) good bad h)"
  unfolding emits_def by (rule does_mono [OF does_answered]) (auto split: res.splits)

lemma emits_flush [emits_intros]: "P (Flushed s) \<Longrightarrow> P (Failed s) \<Longrightarrow> emits P (tcp_flush env s)"
  unfolding tcp_flush_def [abs_def] by (rule emits_answered)

lemma emits_open [emits_intros]: "P (Opened s v6) \<Longrightarrow> P (Failed s) \<Longrightarrow> emits P (tcp_open env s v6)"
  unfolding tcp_open_def [abs_def] by (rule emits_answered)

lemma emits_connect [emits_intros]: "P (Connected s addr) \<Longrightarrow> P (Failed s) \<Longrightarrow> emits P (tcp_connect env s addr)"
  unfolding tcp_connect_def [abs_def] by (rule emits_answered)

lemma emits_single:
  assumes "\<And>h. \<exists>es r. m h = (r, h @ es) \<and> list_all P es \<and> r \<noteq> Panicked"
  shows "emits P m"
  unfolding emits_def by (rule doesI) (use assms in blast)

lemma does_set_option:
  "does (\<lambda>es r. r = Ok () \<and> (es = [Option_Set s opt] \<or> es = [Option_Failed s opt])) (set_option env s opt)"
  by (rule doesI) (simp add: set_option_def)

lemma emits_set_option [emits_intros]:
  "P (Option_Set s opt) \<Longrightarrow> P (Option_Failed s opt) \<Longrightarrow> emits P (set_option env s opt)"
  unfolding emits_def by (rule does_mono [OF does_set_option]) auto

lemma emits_lookup [emits_intros]: "(\<And>a. P (Looked_Up name a)) \<Longrightarrow> emits P (lookup_host env name)"
  by (rule emits_single) (auto simp: lookup_host_def split: sum.splits)

lemma emits_udp_bind [emits_intros]: "P Udp_Bound \<Longrightarrow> emits P (udp_bind env)"
  by (rule emits_single) (auto simp: udp_bind_def split: option.splits)

lemma emits_udp_send [emits_intros]: "P (Udp_Sent addr msg) \<Longrightarrow> emits P (udp_send_to env msg addr)"
  by (rule emits_single) (auto simp: udp_send_to_def split: option.splits)

lemma emits_udp_recv [emits_intros]: "(\<And>d. P (Udp_Received d)) \<Longrightarrow> emits P (udp_recv env max_len)"
  by (rule emits_single) (simp add: udp_recv_def Let_def)

lemma emits_random [emits_intros]: "lo \<le> hi \<Longrightarrow> (\<And>v. P (Drew lo hi v)) \<Longrightarrow> emits P (random_range env lo hi)"
  by (rule emits_single) (simp add: random_range_def Let_def)

lemma emits_sleep [emits_intros]: "P (Slept n) \<Longrightarrow> emits P (sleep_ms n)"
  by (rule emits_single) (simp add: sleep_ms_def)

lemma emits_tunnel [emits_intros]: "P (Tunnelled a b) \<Longrightarrow> emits P (copy_bidirectional env a b)"
  by (rule emits_single) (auto simp: copy_bidirectional_def split: option.splits)


section \<open>Orders of events\<close>

text \<open>
  \<open>follows K m\<close>: \<open>m\<close> does not panic and the sequence of its events satisfies \<open>K\<close>. The locale has what an
  order needs for its proof to go through a sequence of calls: idle events in front do not matter.
\<close>

definition follows :: "(history \<Rightarrow> bool) \<Rightarrow> 'a io \<Rightarrow> bool" where
  "follows K m \<longleftrightarrow> does (\<lambda>es r. K es \<and> r \<noteq> Panicked) m"

lemma follows_if: "(b \<Longrightarrow> follows K m) \<Longrightarrow> (\<not> b \<Longrightarrow> follows K n) \<Longrightarrow> follows K (if b then m else n)"
  by simp

lemma follows_option:
  "(x = None \<Longrightarrow> follows K m) \<Longrightarrow> (\<And>y. x = Some y \<Longrightarrow> follows K (f y)) \<Longrightarrow>
   follows K (case x of None \<Rightarrow> m | Some y \<Rightarrow> f y)"
  by (cases x) auto

lemma follows_sum:
  "(\<And>e. x = Inl e \<Longrightarrow> follows K (f e)) \<Longrightarrow> (\<And>y. x = Inr y \<Longrightarrow> follows K (g y)) \<Longrightarrow>
   follows K (case x of Inl e \<Rightarrow> f e | Inr y \<Rightarrow> g y)"
  by (cases x) auto

lemma follows_prod: "(\<And>a b. x = (a, b) \<Longrightarrow> follows K (f a b)) \<Longrightarrow> follows K (case x of (a, b) \<Rightarrow> f a b)"
  by (cases x) simp

lemma followsD: "follows K m \<Longrightarrow> \<exists>r es. m h = (r, h @ es) \<and> K es"
  unfolding follows_def by (drule doesD [of _ _ h]) blast

locale event_order =
  fixes keeps :: "history \<Rightarrow> bool" and idle :: "event \<Rightarrow> bool"
  assumes keeps_nothing: "keeps []"
    and idle_before: "idle e \<Longrightarrow> keeps es \<Longrightarrow> keeps (e # es)"
begin

lemma idle_prefix: "list_all idle es \<Longrightarrow> keeps es' \<Longrightarrow> keeps (es @ es')"
  by (induction es) (auto intro: idle_before)

lemma idle_events: "list_all idle es \<Longrightarrow> keeps es"
  using idle_prefix [of es "[]"] keeps_nothing by simp

lemma follows_idle: "emits idle m \<Longrightarrow> follows keeps m"
  unfolding emits_def follows_def by (erule does_mono) (simp add: idle_events)

lemma follows_bind:
  assumes "emits idle m" and "\<And>x. follows keeps (f x)"
  shows "follows keeps (bindI m f)"
  unfolding follows_def
  by (rule does_bind [OF assms(1) [unfolded emits_def] assms(2) [unfolded follows_def]])
    (auto simp: idle_events idle_prefix)

end


section \<open>What reaches the peer\<close>

text \<open>The bytes written to a socket, in order.\<close>

definition written :: "sock \<Rightarrow> event \<Rightarrow> bytes" where
  "written s e = (case e of Wrote s' bs \<Rightarrow> if s' = s then bs else [] | _ \<Rightarrow> [])"

definition sent :: "sock \<Rightarrow> history \<Rightarrow> bytes" where
  "sent s es = concat (map (written s) es)"

lemma sent_simps [simp]:
  "sent s [] = []"
  "sent s (e # es) = written s e @ sent s es"
  "sent s (es @ es') = sent s es @ sent s es'"
  by (simp_all add: sent_def)

lemma written_simps [simp]:
  "written s (Wrote s' bs) = (if s' = s then bs else [])"
  "written s (Received s' bs) = []" "written s (Flushed s') = []" "written s (Failed s') = []"
  "written s (Opened s' v6) = []" "written s (Option_Set s' opt) = []" "written s (Option_Failed s' opt) = []"
  "written s (Connected s' a) = []"
  "written s (Looked_Up n addrs) = []" "written s Udp_Bound = []" "written s (Udp_Sent a bs) = []"
  "written s (Udp_Received d) = []" "written s (Drew lo hi v) = []" "written s (Slept k) = []"
  "written s (Tunnelled s1 s2) = []"
  by (simp_all add: written_def)

lemma sent_silent: "list_all (\<lambda>e. written s e = []) es \<Longrightarrow> sent s es = []"
  by (induction es) auto

text \<open>
  \<open>delivers s p m\<close>: a sender. When \<open>m\<close> succeeds exactly the bytes \<open>p\<close> have been written to
  \<open>s\<close>, when it fails a prefix of them; nothing is written to another socket; it never panics.
\<close>

definition delivers :: "sock \<Rightarrow> bytes \<Rightarrow> 'a io \<Rightarrow> bool" where
  "delivers s p m \<longleftrightarrow>
     does (\<lambda>es r. (\<forall>s'. s' \<noteq> s \<longrightarrow> sent s' es = []) \<and>
       (case r of Ok _ \<Rightarrow> sent s es = p | Err _ \<Rightarrow> prefix (sent s es) p | Panicked \<Rightarrow> False)) m"

named_theorems delivers_intros "introduction rules for delivers"

lemma delivers_bind:
  assumes "delivers s p m" and "\<And>x. delivers s q (f x)"
  shows "delivers s (p @ q) (bindI m f)"
  unfolding delivers_def
  by (rule does_bind [OF assms(1) [unfolded delivers_def] assms(2) [unfolded delivers_def]])
    (auto split: res.splits)

lemma delivers_then:
  "delivers s [] m \<Longrightarrow> (\<And>x. delivers s q (f x)) \<Longrightarrow> delivers s q (bindI m f)"
  using delivers_bind [of s "[]" m q f] by simp

lemma delivers_ok [delivers_intros]: "delivers s [] (okI x)"
  unfolding delivers_def by (rule does_ok) simp

lemma delivers_err: "delivers s p (errI e)"
  unfolding delivers_def by (rule does_err) simp

lemma delivers_write_all [delivers_intros]: "delivers s data (tcp_write_all env s data)"
  unfolding delivers_def
  by (rule does_mono [OF does_write_all]) (auto simp: take_is_prefix split: res.splits)

lemma delivers_flush [delivers_intros]: "delivers s [] (tcp_flush env s)"
  unfolding delivers_def tcp_flush_def [abs_def]
  by (rule does_mono [OF does_answered]) (auto split: res.splits)

lemma delivers_silent:
  assumes "emits (\<lambda>e. \<forall>s. written s e = []) m"
  shows "delivers s [] m"
  unfolding delivers_def
proof (rule does_mono [OF assms [unfolded emits_def]])
  fix es :: history and r :: "'a res"
  assume a: "list_all (\<lambda>e. \<forall>s. written s e = []) es \<and> r \<noteq> Panicked"
  then have "sent s' es = []" for s'
    by (intro sent_silent) (auto simp: list_all_iff)
  with a show "(\<forall>s'. s' \<noteq> s \<longrightarrow> sent s' es = []) \<and>
      (case r of Ok _ \<Rightarrow> sent s es = [] | Err _ \<Rightarrow> prefix (sent s es) [] | Panicked \<Rightarrow> False)"
    by (auto split: res.splits)
qed

end
