(* ===== verification/Tls_Parser.thy ===== *)
theory Tls_Parser
  imports Prelude
begin

text \<open>
  \<^verbatim>\<open>src/tls/parser.rs\<close>: the TLS ClientHello parser that locates the server name (SNI), and the
  builder of the synthetic ClientHello used for the fake probe. Every read of the input is an
  indexing that would panic out of range, so the absence of panics is a theorem. The abstract
  specification is \<open>hello\<close>, a ClientHello as a structure, with \<open>encode_hello\<close> its wire format:
  the parser is shown to find the server name of every well-formed hello.
\<close>

section \<open>Constants and data\<close>

definition TLS_CONTENT_TYPE_HANDSHAKE :: byte where
  "TLS_CONTENT_TYPE_HANDSHAKE = 0x16"

definition HANDSHAKE_TYPE_CLIENT_HELLO :: byte where
  "HANDSHAKE_TYPE_CLIENT_HELLO = 0x01"

definition SNI_EXTENSION_TYPE :: u16 where
  "SNI_EXTENSION_TYPE = 0x0000"

definition TLS_RECORD_HEADER_SIZE :: nat where
  "TLS_RECORD_HEADER_SIZE = 5"

lemmas tls_consts =
  TLS_CONTENT_TYPE_HANDSHAKE_def HANDSHAKE_TYPE_CLIENT_HELLO_def
  SNI_EXTENSION_TYPE_def TLS_RECORD_HEADER_SIZE_def

record sni_info =
  hostname_offset :: nat
  hostname_length :: nat


section \<open>Operations\<close>

definition read_u16 :: "bytes \<Rightarrow> nat \<Rightarrow> u16 option rust" where
  "read_u16 data offset =
     (if offset + 2 > length data then Val None
      else bindR (idx data offset) (\<lambda>a.
           bindR (idx data (offset + 1)) (\<lambda>b.
           Val (Some (from_be_bytes a b)))))"

definition is_client_hello :: "bytes \<Rightarrow> bool rust" where
  "is_client_hello data =
     (if length data < 6 then Val False
      else bindR (idx data 0) (\<lambda>b0.
           if b0 = TLS_CONTENT_TYPE_HANDSHAKE
           then bindR (idx data 5) (\<lambda>b5. Val (b5 = HANDSHAKE_TYPE_CLIENT_HELLO))
           else Val False))"

text \<open>The loop over the extensions: the first one of type SNI decides.\<close>

function scan_extensions :: "bytes \<Rightarrow> nat \<Rightarrow> nat \<Rightarrow> sni_info option rust" where
  "scan_extensions data extensions_end pos =
     (if pos + 4 \<le> extensions_end \<and> pos + 4 \<le> length data then
        bindO (read_u16 data pos) (\<lambda>ext_type.
        bindO (read_u16 data (pos + 2)) (\<lambda>ext_len.
        if ext_type = SNI_EXTENSION_TYPE then
          (if pos + 4 + 5 > length data then Val None
           else bindO (read_u16 data (pos + 4 + 3)) (\<lambda>hostname_len.
             if pos + 4 + 5 + unat hostname_len > length data then Val None
             else Val (Some \<lparr>hostname_offset = pos + 4 + 5, hostname_length = unat hostname_len\<rparr>)))
        else scan_extensions data extensions_end (pos + 4 + unat ext_len)))
      else Val None)"
  by pat_completeness auto
termination
  by (relation "measure (\<lambda>(data, _, pos). Suc (length data) - pos)") auto

declare scan_extensions.simps [simp del]

definition find_sni_info :: "bytes \<Rightarrow> sni_info option rust" where
  "find_sni_info data =
     (if length data < 6 then Val None else
      bindR (idx data 0) (\<lambda>b0.
      bindR (idx data 5) (\<lambda>b5.
      if b0 \<noteq> TLS_CONTENT_TYPE_HANDSHAKE \<or> b5 \<noteq> HANDSHAKE_TYPE_CLIENT_HELLO then Val None else
      let pos = TLS_RECORD_HEADER_SIZE; pos = pos + 4; pos = pos + 34 in
      if pos \<ge> length data then Val None else
      bindR (idx data pos) (\<lambda>session_id_len.
      let pos = pos + (1 + unat session_id_len) in
      if pos + 2 > length data then Val None else
      bindO (read_u16 data pos) (\<lambda>cipher_suites_len.
      let pos = pos + (2 + unat cipher_suites_len) in
      if pos \<ge> length data then Val None else
      bindR (idx data pos) (\<lambda>compression_len.
      let pos = pos + (1 + unat compression_len) in
      if pos + 2 > length data then Val None else
      bindO (read_u16 data pos) (\<lambda>extensions_len.
      let pos = pos + 2; extensions_end = pos + unat extensions_len in
      scan_extensions data extensions_end pos)))))))"

definition find_extensions_length_offset :: "bytes \<Rightarrow> nat option rust" where
  "find_extensions_length_offset data =
     (if length data < 44 then Val None else
      let pos = TLS_RECORD_HEADER_SIZE; pos = pos + 4; pos = pos + 34 in
      if pos \<ge> length data then Val None else
      bindR (idx data pos) (\<lambda>session_id_len.
      let pos = pos + (1 + unat session_id_len) in
      if pos + 2 > length data then Val None else
      bindO (read_u16 data pos) (\<lambda>cipher_suites_len.
      let pos = pos + (2 + unat cipher_suites_len) in
      if pos \<ge> length data then Val None else
      bindR (idx data pos) (\<lambda>compression_len.
      let pos = pos + (1 + unat compression_len) in
      if pos + 2 > length data then Val None else Val (Some pos)))))"

text \<open>
  \<open>build_synthetic_client_hello\<close>, with the host name given as its UTF-8 bytes. The lengths are
  cast with \<open>as u16\<close>, which truncates.
\<close>

definition sni_extension :: "bytes \<Rightarrow> bytes" where
  "sni_extension host_bytes =
     [0x00, 0x00] @ to_be_bytes (word_of_nat (2 + 1 + 2 + length host_bytes)) @
     to_be_bytes (word_of_nat (1 + 2 + length host_bytes)) @ [0x00] @
     to_be_bytes (word_of_nat (length host_bytes)) @ host_bytes"

definition padding_extension :: bytes where
  "padding_extension = [0x00, 0x15, 0x00, 0x0A] @ replicate 10 0"

definition build_synthetic_client_hello :: "bytes option \<Rightarrow> bool \<Rightarrow> bytes" where
  "build_synthetic_client_hello hostname include_padding =
     (let extensions_data = (case hostname of None \<Rightarrow> [] | Some host \<Rightarrow> sni_extension host);
          extensions_data = (if include_padding then extensions_data @ padding_extension
                             else extensions_data);
          hs_body = [0x03, 0x03] @ replicate 32 0 @ [0x00, 0x00, 0x02, 0x00, 0x2F, 0x01, 0x00];
          ext_len = (word_of_nat (length extensions_data) :: u16);
          hs_body = hs_body @ to_be_bytes ext_len @ extensions_data;
          hs_len = (word_of_nat (4 + length hs_body) :: u16);
          body_len = (word_of_nat (length hs_body) :: u16)
      in [TLS_CONTENT_TYPE_HANDSHAKE, 0x03, 0x01,
          ucast (and (drop_bit 8 hs_len) 0xFF), ucast (and hs_len 0xFF),
          HANDSHAKE_TYPE_CLIENT_HELLO, 0x00,
          ucast (and (drop_bit 8 body_len) 0xFF), ucast (and body_len 0xFF)] @ hs_body)"



section \<open>No read is out of range\<close>

lemma read_u16_eq:
  "read_u16 data off = Val (if off + 2 > length data then None
     else Some (from_be_bytes (data ! off) (data ! (off + 1))))"
  by (simp add: read_u16_def)

lemma safe_read_u16 [panic_free]: "safe (read_u16 data off)"
  by (simp add: read_u16_eq safe_def)

lemma read_u16_Some [rust_conv]:
  "read_u16 data off = Val (Some w) \<longleftrightarrow>
     off + 2 \<le> length data \<and> w = from_be_bytes (data ! off) (data ! (off + 1))"
  by (auto simp: read_u16_eq)

lemma is_client_hello_eq:
  "is_client_hello data = Val (6 \<le> length data \<and> data ! 0 = TLS_CONTENT_TYPE_HANDSHAKE \<and>
     data ! 5 = HANDSHAKE_TYPE_CLIENT_HELLO)"
  by (auto simp: is_client_hello_def idx_def)

lemma safe_is_client_hello [panic_free]: "safe (is_client_hello data)"
  by (simp add: is_client_hello_eq safe_def)

lemma safe_scan_extensions [panic_free]: "safe (scan_extensions data e pos)"
proof (induction data e pos rule: scan_extensions.induct)
  case (1 data e pos)
  show ?case
    by (subst scan_extensions.simps) (intro panic_free "1.IH"; assumption)
qed

lemma safe_find_sni_info [panic_free]: "safe (find_sni_info data)"
  unfolding find_sni_info_def Let_def
  by (intro panic_free) (auto simp: tls_consts)

lemma safe_find_extensions_length_offset: "safe (find_extensions_length_offset data)"
  unfolding find_extensions_length_offset_def Let_def
  by (intro panic_free) (auto simp: tls_consts)


section \<open>The located name lies in the buffer\<close>

lemma scan_extensions_bounds:
  "scan_extensions data e pos = Val (Some i) \<Longrightarrow>
     pos + 9 \<le> hostname_offset i \<and> hostname_offset i + hostname_length i \<le> length data"
proof (induction data e pos rule: scan_extensions.induct)
  case (1 data e pos)
  show ?case
  proof (cases "pos + 4 \<le> e \<and> pos + 4 \<le> length data")
    case False
    with "1.prems" show ?thesis by (subst (asm) scan_extensions.simps) simp
  next
    case True
    let ?ty = "from_be_bytes (data ! pos) (data ! (pos + 1))"
    let ?ln = "from_be_bytes (data ! (pos + 2)) (data ! (pos + 2 + 1))"
    have rd: "read_u16 data pos = Val (Some ?ty)" "read_u16 data (pos + 2) = Val (Some ?ln)"
      using True by (simp_all add: read_u16_eq)
    show ?thesis
    proof (cases "?ty = SNI_EXTENSION_TYPE")
      case True
      with "1.prems" \<open>pos + 4 \<le> e \<and> _\<close> rd show ?thesis
        by (subst (asm) scan_extensions.simps) (auto simp: rust_conv split: if_splits)
    next
      case False
      with "1.prems" True rd have "scan_extensions data e (pos + 4 + unat ?ln) = Val (Some i)"
        by (subst (asm) scan_extensions.simps) simp
      from "1.IH" [OF True rd False this] show ?thesis by simp
    qed
  qed
qed

lemma find_sni_info_bounds:
  assumes "find_sni_info data = Val (Some i)"
  shows "58 \<le> hostname_offset i" and "hostname_offset i + hostname_length i \<le> length data"
proof -
  from assms obtain e pos where "scan_extensions data e pos = Val (Some i)" "49 \<le> pos"
    unfolding find_sni_info_def Let_def
    by (auto simp: rust_conv tls_consts split: if_splits)
  with scan_extensions_bounds [of data e pos i]
  show "58 \<le> hostname_offset i" and "hostname_offset i + hostname_length i \<le> length data"
    by auto
qed

lemma find_sni_info_client_hello:
  "find_sni_info data = Val (Some i) \<Longrightarrow> is_client_hello data = Val True"
  unfolding find_sni_info_def by (auto simp: rust_conv is_client_hello_eq split: if_splits)


section \<open>Functional correctness: the name of a well-formed ClientHello is found\<close>

text \<open>
  A ClientHello as a structure. \<open>hl_head\<close> is everything before the session identifier: the record
  header, the handshake header, the version and the random, 43 bytes.
\<close>

record hello =
  hl_head :: bytes
  hl_session :: bytes
  hl_ciphers :: bytes
  hl_compression :: bytes
  hl_exts :: "(u16 \<times> bytes) list"

definition encode_ext :: "u16 \<times> bytes \<Rightarrow> bytes" where
  "encode_ext e = to_be_bytes (fst e) @ to_be_bytes (word_of_nat (length (snd e))) @ snd e"

definition encode_exts :: "(u16 \<times> bytes) list \<Rightarrow> bytes" where
  "encode_exts es = concat (map encode_ext es)"

definition encode_prefix :: "hello \<Rightarrow> bytes" where
  "encode_prefix h =
     hl_head h @ [word_of_nat (length (hl_session h))] @ hl_session h @
     to_be_bytes (word_of_nat (length (hl_ciphers h))) @ hl_ciphers h @
     [word_of_nat (length (hl_compression h))] @ hl_compression h"

definition encode_hello :: "hello \<Rightarrow> bytes" where
  "encode_hello h =
     encode_prefix h @ to_be_bytes (word_of_nat (length (encode_exts (hl_exts h)))) @ encode_exts (hl_exts h)"

definition wf_hello :: "hello \<Rightarrow> bool" where
  "wf_hello h \<longleftrightarrow>
     length (hl_head h) = 43 \<and> hl_head h ! 0 = TLS_CONTENT_TYPE_HANDSHAKE \<and>
     hl_head h ! 5 = HANDSHAKE_TYPE_CLIENT_HELLO \<and>
     length (hl_session h) < 256 \<and> length (hl_ciphers h) < 65536 \<and> length (hl_compression h) < 256 \<and>
     list_all (\<lambda>e. length (snd e) < 65536) (hl_exts h) \<and> length (encode_exts (hl_exts h)) < 65536"

text \<open>The body of an SNI extension that carries one host name.\<close>

definition sni_body :: "bytes \<Rightarrow> bytes" where
  "sni_body name =
     to_be_bytes (word_of_nat (3 + length name)) @ [0x00] @ to_be_bytes (word_of_nat (length name)) @ name"

lemma read_u16_drop:
  assumes "drop pos data = to_be_bytes w @ r"
  shows "read_u16 data pos = Val (Some w)" and "drop (pos + 2) data = r" and "pos + 2 \<le> length data"
  using drop_Cons2_nth [of pos data _ _ r] assms
  by (auto simp: to_be_bytes_def read_u16_eq be_simps)

lemma encode_exts_Nil [simp]: "encode_exts [] = []"
  by (simp add: encode_exts_def)

lemma encode_exts_Cons [simp]: "encode_exts (e # es) = encode_ext e @ encode_exts es"
  by (simp add: encode_exts_def)

lemma length_encode_ext [simp]: "length (encode_ext e) = 4 + length (snd e)"
  by (simp add: encode_ext_def)

lemma scan_skip_one:
  assumes "drop pos data = encode_ext x @ r" and "length (snd x) < 65536"
    and "fst x \<noteq> SNI_EXTENSION_TYPE" and "pos + length (encode_ext x) \<le> e"
  shows "scan_extensions data e pos = scan_extensions data e (pos + length (encode_ext x))"
    and "drop (pos + length (encode_ext x)) data = r"
proof -
  from assms(1) have d: "drop pos data = to_be_bytes (fst x) @ to_be_bytes (word_of_nat (length (snd x))) @ snd x @ r"
    by (simp add: encode_ext_def)
  note r1 = read_u16_drop [OF d]
  note r2 = read_u16_drop [OF r1(2)]
  show "drop (pos + length (encode_ext x)) data = r"
    by (rule drop_append_ge [OF assms(1)])
  show "scan_extensions data e pos = scan_extensions data e (pos + length (encode_ext x))"
    using r1 r2 assms(2-4) by (subst scan_extensions.simps) (simp add: be_simps add.assoc)
qed

lemma scan_skip:
  assumes "drop pos data = encode_exts es @ r" and "list_all (\<lambda>e. length (snd e) < 65536) es"
    and "\<forall>x \<in> set es. fst x \<noteq> SNI_EXTENSION_TYPE" and "pos + length (encode_exts es) \<le> e"
  shows "scan_extensions data e pos = scan_extensions data e (pos + length (encode_exts es))
         \<and> drop (pos + length (encode_exts es)) data = r"
  using assms
proof (induction es arbitrary: pos)
  case Nil
  then show ?case by simp
next
  case (Cons x es)
  from Cons.prems have d: "drop pos data = encode_ext x @ (encode_exts es @ r)"
    and x: "length (snd x) < 65536" "fst x \<noteq> SNI_EXTENSION_TYPE" "pos + length (encode_ext x) \<le> e"
    by simp_all
  note one = scan_skip_one [OF d x]
  from Cons.prems one(2) have "scan_extensions data e (pos + length (encode_ext x)) =
      scan_extensions data e (pos + length (encode_ext x) + length (encode_exts es))
      \<and> drop (pos + length (encode_ext x) + length (encode_exts es)) data = r"
    by (intro Cons.IH) auto
  with one(1) show ?case by (simp add: add.assoc)
qed

lemma scan_sni:
  assumes "drop pos data = encode_ext (SNI_EXTENSION_TYPE, sni_body name) @ r"
    and "length name + 5 < 65536" and "pos + 4 \<le> e"
  shows "scan_extensions data e pos =
           Val (Some \<lparr>hostname_offset = pos + 9, hostname_length = length name\<rparr>)"
    and "drop (pos + 9) data = name @ r"
proof -
  from assms(1) have d: "drop pos data = to_be_bytes SNI_EXTENSION_TYPE @
      to_be_bytes (word_of_nat (length (sni_body name))) @ to_be_bytes (word_of_nat (3 + length name)) @
      0 # to_be_bytes (word_of_nat (length name)) @ name @ r"
    by (simp add: encode_ext_def sni_body_def)
  note r1 = read_u16_drop [OF d]
  note r2 = read_u16_drop [OF r1(2)]
  note r3 = read_u16_drop [OF r2(2)]
  note r4 = drop_Cons_nth [OF r3(2)]
  note r5 = read_u16_drop [OF r4 [THEN conjunct2, THEN conjunct2]]
  show dn: "drop (pos + 9) data = name @ r"
    using r5(2) by (simp add: add.commute numeral_eq_Suc)
  have "pos + 9 \<le> length data" using r5(3) by simp
  then have len: "pos + 9 + length name \<le> length data"
    using arg_cong [OF dn, of length] by simp
  have rd: "read_u16 data (pos + 4 + 3) = Val (Some (word_of_nat (length name)))"
    using r5(1) by (simp add: add.commute numeral_eq_Suc)
  show "scan_extensions data e pos =
      Val (Some \<lparr>hostname_offset = pos + 9, hostname_length = length name\<rparr>)"
    using r1 r2 rd len assms(2,3)
    by (subst scan_extensions.simps) (simp add: be_simps)
qed

text \<open>
  The fixed part: on a well-formed prefix, the parser arrives at the extensions, whatever follows.
\<close>

lemma length_encode_prefix:
  "length (encode_prefix h) = length (hl_head h) + length (hl_session h) + length (hl_ciphers h) + length (hl_compression h) + 4"
  by (simp add: encode_prefix_def)

lemma find_sni_info_prefix:
  assumes wf: "wf_hello h" and data: "data = encode_prefix h @ to_be_bytes w @ tail"
  defines "P \<equiv> length (encode_prefix h)"
  shows "find_sni_info data = scan_extensions data (P + 2 + unat w) (P + 2)"
    and "find_extensions_length_offset data = Val (Some P)"
    and "drop (P + 2) data = tail"
proof -
  let ?s = "hl_session h" and ?c = "hl_ciphers h" and ?k = "hl_compression h"
  have d43: "drop 43 data = word_of_nat (length ?s) # ?s @
      to_be_bytes (word_of_nat (length ?c)) @ ?c @ word_of_nat (length ?k) # ?k @ to_be_bytes w @ tail"
    using wf by (simp add: data encode_prefix_def wf_hello_def)
  note s1 = drop_Cons_nth [OF d43]
  have "drop (44 + length ?s) data = to_be_bytes (word_of_nat (length ?c)) @ ?c @ word_of_nat (length ?k) # ?k @ to_be_bytes w @ tail"
    using drop_append_ge [of 44 data ?s] s1 by simp
  note s2 = read_u16_drop [OF this]
  have "drop (46 + length ?s + length ?c) data = word_of_nat (length ?k) # ?k @ to_be_bytes w @ tail"
    using drop_append_ge [OF s2(2)] by (simp add: ac_simps)
  note s3 = drop_Cons_nth [OF this]
  have P: "P = 47 + length ?s + length ?c + length ?k"
    using wf by (simp add: P_def length_encode_prefix wf_hello_def)
  have "drop P data = to_be_bytes w @ tail"
    using drop_append_ge [OF s3 [THEN conjunct2, THEN conjunct2]] by (simp add: P ac_simps)
  note s4 = read_u16_drop [OF this]
  show "drop (P + 2) data = tail" by (rule s4(2))
  have hd: "data ! 0 = TLS_CONTENT_TYPE_HANDSHAKE" "data ! 5 = HANDSHAKE_TYPE_CLIENT_HELLO"
    using wf by (simp_all add: data encode_prefix_def wf_hello_def nth_append)
  have len: "46 + length ?s + length ?c < length data"
    using s3 by blast
  have i0: "idx data 0 = Val TLS_CONTENT_TYPE_HANDSHAKE"
    unfolding idx_def using hd(1) len by auto
  have i5: "idx data 5 = Val HANDSHAKE_TYPE_CLIENT_HELLO"
    unfolding idx_def using hd(2) len by simp
  have i43: "idx data 43 = Val (word_of_nat (length ?s))"
    using idx_drop [OF d43] .
  have ik: "idx data (46 + length ?s + length ?c) = Val (word_of_nat (length ?k))"
    unfolding idx_def using s3 by simp
  note bounds = wf [unfolded wf_hello_def]
  show "find_sni_info data = scan_extensions data (P + 2 + unat w) (P + 2)"
    unfolding find_sni_info_def Let_def TLS_RECORD_HEADER_SIZE_def
    using i0 i5 i43 ik s1 s2(1,3) s3 s4(1,3) bounds P by (simp add: be_simps ac_simps)
  show "find_extensions_length_offset data = Val (Some P)"
    unfolding find_extensions_length_offset_def Let_def TLS_RECORD_HEADER_SIZE_def
    using i43 ik s1 s2(1,3) s3 s4(1,3) bounds P by (simp add: be_simps ac_simps)
qed

lemma scan_all_skipped:
  assumes "drop pos data = encode_exts es @ r" and "list_all (\<lambda>e. length (snd e) < 65536) es"
    and "\<forall>x \<in> set es. fst x \<noteq> SNI_EXTENSION_TYPE"
  shows "scan_extensions data (pos + length (encode_exts es)) pos = Val None"
proof -
  let ?e = "pos + length (encode_exts es)"
  have "scan_extensions data ?e ?e = Val None"
    by (subst scan_extensions.simps) simp
  with scan_skip [OF assms, of ?e] show ?thesis by simp
qed

lemma find_sni_info_encode_none:
  assumes "wf_hello h" and "\<forall>x \<in> set (hl_exts h). fst x \<noteq> SNI_EXTENSION_TYPE"
  shows "find_sni_info (encode_hello h @ rest) = Val None"
proof -
  let ?w = "word_of_nat (length (encode_exts (hl_exts h))) :: u16"
  let ?data = "encode_hello h @ rest"
  have "?data = encode_prefix h @ to_be_bytes ?w @ (encode_exts (hl_exts h) @ rest)"
    by (simp add: encode_hello_def)
  note p = find_sni_info_prefix [OF assms(1) this]
  show ?thesis
    unfolding p(1) using scan_all_skipped [OF p(3) _ assms(2)] assms(1)
    by (simp add: wf_hello_def be_simps)
qed

lemma find_sni_info_encode_some:
  assumes wf: "wf_hello h" and ex: "hl_exts h = pre @ (SNI_EXTENSION_TYPE, sni_body name) # post"
    and pre: "\<forall>x \<in> set pre. fst x \<noteq> SNI_EXTENSION_TYPE"
  defines "off \<equiv> length (encode_prefix h) + 2 + length (encode_exts pre) + 9"
  shows "find_sni_info (encode_hello h @ rest) =
           Val (Some \<lparr>hostname_offset = off, hostname_length = length name\<rparr>)"
    and "take (length name) (drop off (encode_hello h @ rest)) = name"
proof -
  let ?w = "word_of_nat (length (encode_exts (hl_exts h))) :: u16"
  let ?data = "encode_hello h @ rest" and ?P = "length (encode_prefix h) + 2"
  let ?sni = "(SNI_EXTENSION_TYPE, sni_body name)"
  have split: "encode_exts (hl_exts h) = encode_exts pre @ encode_ext ?sni @ encode_exts post"
    by (simp add: ex encode_exts_def)
  have "?data = encode_prefix h @ to_be_bytes ?w @ (encode_exts (hl_exts h) @ rest)"
    by (simp add: encode_hello_def)
  note p = find_sni_info_prefix [OF wf this]
  have w: "unat ?w = length (encode_exts (hl_exts h))"
    using wf by (simp add: wf_hello_def be_simps)
  have d: "drop ?P ?data = encode_exts pre @ (encode_ext ?sni @ encode_exts post @ rest)"
    using p(3) by (simp add: split)
  have small: "list_all (\<lambda>e. length (snd e) < 65536) pre" "length name + 5 < 65536"
    using wf by (simp_all add: wf_hello_def ex sni_body_def)
  note sk = scan_skip [OF d small(1) pre, of "?P + unat ?w"]
  have "?P + length (encode_exts pre) \<le> ?P + unat ?w" and
    "?P + length (encode_exts pre) + 4 \<le> ?P + unat ?w"
    unfolding w by (simp_all add: split)
  with sk scan_sni [of "?P + length (encode_exts pre)" ?data name "encode_exts post @ rest" "?P + unat ?w"] small(2)
  show "find_sni_info ?data = Val (Some \<lparr>hostname_offset = off, hostname_length = length name\<rparr>)"
    and "take (length name) (drop off ?data) = name"
    unfolding p(1) off_def by (simp_all add: add.assoc)
qed


section \<open>The synthetic ClientHello\<close>

definition synthetic_hello :: "bytes option \<Rightarrow> bool \<Rightarrow> hello" where
  "synthetic_hello hostname pad =
     \<lparr>hl_head = take 43 (build_synthetic_client_hello hostname pad),
      hl_session = [], hl_ciphers = [0x00, 0x2F], hl_compression = [0x00],
      hl_exts = (case hostname of None \<Rightarrow> [] | Some host \<Rightarrow> [(SNI_EXTENSION_TYPE, sni_body host)]) @
             (if pad then [(0x15, replicate 10 0)] else [])\<rparr>"

lemma sni_extension_encode: "sni_extension host = encode_ext (SNI_EXTENSION_TYPE, sni_body host)"
  by (simp add: sni_extension_def encode_ext_def sni_body_def tls_consts to_be_bytes_def)

lemma padding_extension_encode: "padding_extension = encode_ext (0x15, replicate 10 0)"
  by code_simp

lemma synthetic_encode:
  "build_synthetic_client_hello hostname pad = encode_hello (synthetic_hello hostname pad)"
  by (cases hostname)
     (simp_all add: encode_hello_def encode_prefix_def synthetic_hello_def
       build_synthetic_client_hello_def Let_def sni_extension_encode padding_extension_encode
       to_be_bytes_def)

lemma synthetic_hello_simps [simp]:
  "hl_session (synthetic_hello hostname pad) = []"
  "hl_ciphers (synthetic_hello hostname pad) = [0x00, 0x2F]"
  "hl_compression (synthetic_hello hostname pad) = [0x00]"
  "hl_exts (synthetic_hello hostname pad) =
     (case hostname of None \<Rightarrow> [] | Some host \<Rightarrow> [(SNI_EXTENSION_TYPE, sni_body host)]) @
     (if pad then [(0x15, replicate 10 0)] else [])"
  by (simp_all add: synthetic_hello_def)

lemma synthetic_head:
  "length (hl_head (synthetic_hello hostname pad)) = 43"
  "hl_head (synthetic_hello hostname pad) ! 0 = TLS_CONTENT_TYPE_HANDSHAKE"
  "hl_head (synthetic_hello hostname pad) ! 5 = HANDSHAKE_TYPE_CLIENT_HELLO"
  by (simp_all add: synthetic_hello_def build_synthetic_client_hello_def Let_def)

lemma wf_synthetic_hello:
  assumes "length (case hostname of None \<Rightarrow> [] | Some h \<Rightarrow> h) + 70 < 65536"
  shows "wf_hello (synthetic_hello hostname pad)"
  using assms
  by (cases hostname) (simp_all add: wf_hello_def synthetic_head sni_body_def)

lemma synthetic_prefix_length: "length (encode_prefix (synthetic_hello hostname pad)) = 50"
  by (simp add: length_encode_prefix synthetic_head)

lemma find_sni_synthetic:
  assumes "length host + 70 < 65536"
  shows "find_sni_info (build_synthetic_client_hello (Some host) pad) =
           Val (Some \<lparr>hostname_offset = 61, hostname_length = length host\<rparr>)"
    and "take (length host) (drop 61 (build_synthetic_client_hello (Some host) pad)) = host"
proof -
  let ?h = "synthetic_hello (Some host) pad"
  have wf: "wf_hello ?h" using assms by (intro wf_synthetic_hello) simp
  have ex: "hl_exts ?h = [] @ (SNI_EXTENSION_TYPE, sni_body host) # (if pad then [(0x15, replicate 10 0)] else [])"
    by (simp add: synthetic_hello_def)
  note f = find_sni_info_encode_some [OF wf ex, where rest = "[]"]
  show "find_sni_info (build_synthetic_client_hello (Some host) pad) =
      Val (Some \<lparr>hostname_offset = 61, hostname_length = length host\<rparr>)"
    and "take (length host) (drop 61 (build_synthetic_client_hello (Some host) pad)) = host"
    using f by (simp_all add: synthetic_encode synthetic_prefix_length)
qed

lemma find_sni_synthetic_none: "find_sni_info (build_synthetic_client_hello None pad) = Val None"
  using find_sni_info_encode_none [OF wf_synthetic_hello, of None pad "[]"]
  by (simp add: synthetic_encode tls_consts)


section \<open>Properties\<close>

text \<open>
  C8: For every well-formed ClientHello whose first SNI extension carries the host name
  \<open>name\<close>, whatever extensions surround it and whatever bytes follow in the buffer,
  \<open>find_sni_info\<close> returns the offset and length of \<open>name\<close> in the buffer.
\<close>

theorem sni_located_in_well_formed_hello:
  assumes "wf_hello h" and "hl_exts h = pre @ (SNI_EXTENSION_TYPE, sni_body name) # post"
    and "\<forall>x \<in> set pre. fst x \<noteq> SNI_EXTENSION_TYPE"
  shows "\<exists>off. find_sni_info (encode_hello h @ rest) =
           Val (Some \<lparr>hostname_offset = off, hostname_length = length name\<rparr>) \<and>
         take (length name) (drop off (encode_hello h @ rest)) = name"
  using find_sni_info_encode_some [OF assms, of rest] by blast

definition example_hello :: hello where
  "example_hello =
     \<lparr>hl_head = [0x16, 3, 1, 0, 88, 1, 0, 0, 84, 3, 3] @ replicate 32 7, hl_session = [9, 9],
      hl_ciphers = [0x13, 0x01, 0x13, 0x02], hl_compression = [0],
      hl_exts = [(0x0A, [0, 2, 0, 0x1D]), (0, sni_body [97, 46, 101, 120]), (0x2B, [2, 3, 4])]\<rparr>"

theorem sni_located_in_well_formed_hello_witness:
  "\<exists>off. find_sni_info (encode_hello example_hello @ [0xFF]) =
     Val (Some \<lparr>hostname_offset = off, hostname_length = length [97::byte, 46, 101, 120]\<rparr>) \<and>
   take (length [97::byte, 46, 101, 120]) (drop off (encode_hello example_hello @ [0xFF])) = [97, 46, 101, 120]"
proof (rule sni_located_in_well_formed_hello)
  show "wf_hello example_hello"
    by (simp add: wf_hello_def example_hello_def tls_consts sni_body_def encode_ext_def)
  show "hl_exts example_hello =
      [(0x0A, [0, 2, 0, 0x1D])] @ (SNI_EXTENSION_TYPE, sni_body [97, 46, 101, 120]) # [(0x2B, [2, 3, 4])]"
    by (simp add: example_hello_def tls_consts)
  show "\<forall>x \<in> set [(0x0A :: u16, [0, 2, 0, 0x1D :: byte])]. fst x \<noteq> SNI_EXTENSION_TYPE"
    by (simp add: tls_consts)
qed

text \<open>
  C9: On any input bytes at all, \<open>find_sni_info\<close> neither panics nor points outside the
  buffer: a returned name starts after the fixed part of a ClientHello and ends in the buffer.
\<close>

theorem sni_parser_total_and_in_bounds:
  "\<exists>r. find_sni_info data = Val r \<and>
     (case r of None \<Rightarrow> True
      | Some i \<Rightarrow> 58 \<le> hostname_offset i \<and> hostname_offset i + hostname_length i \<le> length data \<and>
                  is_client_hello data = Val True)"
proof -
  obtain r where r: "find_sni_info data = Val r"
    using safeD [OF safe_find_sni_info] by blast
  then show ?thesis
    using find_sni_info_bounds [of data] find_sni_info_client_hello [of data]
    by (auto split: option.splits)
qed

text \<open>
  A well-formed ClientHello without an SNI extension yields no name, so bytes that
  merely look like a host name elsewhere in the message are not taken for one.
\<close>

lemma no_sni_extension_no_name:
  assumes "wf_hello h" and "\<forall>x \<in> set (hl_exts h). fst x \<noteq> SNI_EXTENSION_TYPE"
  shows "find_sni_info (encode_hello h @ rest) = Val None"
  using assms by (rule find_sni_info_encode_none)

lemma no_sni_extension_no_name_example:
  "find_sni_info (encode_hello (example_hello\<lparr>hl_exts := [(0x2B, sni_body [97, 98])]\<rparr>) @ [1, 2]) = Val None"
proof (rule no_sni_extension_no_name)
  show "wf_hello (example_hello\<lparr>hl_exts := [(0x2B, sni_body [97, 98])]\<rparr>)"
    by (simp add: wf_hello_def example_hello_def tls_consts sni_body_def encode_ext_def)
  show "\<forall>x \<in> set (hl_exts (example_hello\<lparr>hl_exts := [(0x2B, sni_body [97, 98])]\<rparr>)). fst x \<noteq> SNI_EXTENSION_TYPE"
    by (simp add: tls_consts)
qed

text \<open>
  C30: Building and parsing agree: the synthetic ClientHello for a host name is found to
  carry exactly that host name, with and without padding, and the one built for no host name
  carries none.
\<close>

theorem synthetic_hello_roundtrip:
  assumes "length host + 70 < 65536"
  shows "find_sni_info (build_synthetic_client_hello (Some host) pad) =
           Val (Some \<lparr>hostname_offset = 61, hostname_length = length host\<rparr>) \<and>
         take (length host) (drop 61 (build_synthetic_client_hello (Some host) pad)) = host \<and>
         find_sni_info (build_synthetic_client_hello None pad) = Val None"
  using find_sni_synthetic [OF assms] find_sni_synthetic_none by simp

theorem synthetic_hello_roundtrip_witness:
  "find_sni_info (build_synthetic_client_hello (Some [97, 46, 98]) True) =
     Val (Some \<lparr>hostname_offset = 61, hostname_length = length [97::byte, 46, 98]\<rparr>) \<and>
   take (length [97::byte, 46, 98]) (drop 61 (build_synthetic_client_hello (Some [97, 46, 98]) True)) = [97, 46, 98] \<and>
   find_sni_info (build_synthetic_client_hello None True) = Val None"
  by (rule synthetic_hello_roundtrip) simp

end
