(* ===== verification/Tls_Fragmenter.thy ===== *)
theory Tls_Fragmenter
  imports Tls_Parser
begin

text \<open>
  \<^verbatim>\<open>src/tls/fragmenter.rs\<close>: cutting one TLS record into two. The specification is the record
  layer of the receiver: \<open>deframe\<close> reads a byte stream as a sequence of complete TLS records.
  The locale \<open>record_splitter\<close> states what its clients rely on (the two payloads are the two
  halves of the input, each under a header of its own) and proves from that what the receiver
  sees; \<open>fragment_at_offset\<close> is shown to be a splitter.
\<close>

section \<open>Records and operations\<close>

text \<open>\<open>TlsRecordSlice\<close>; the header is an array of five bytes.\<close>

record tls_record_slice =
  header :: bytes
  payload :: bytes

definition record_len :: "tls_record_slice \<Rightarrow> nat" where
  "record_len r = TLS_RECORD_HEADER_SIZE + length (payload r)"

definition record_is_empty :: "tls_record_slice \<Rightarrow> bool" where
  "record_is_empty r \<longleftrightarrow> payload r = []"

definition build_tls_header :: "byte \<Rightarrow> byte \<Rightarrow> byte \<Rightarrow> nat \<Rightarrow> bytes" where
  "build_tls_header content_type version_major version_minor payload_len =
     (let len_bytes = to_be_bytes (word_of_nat payload_len)
      in [content_type, version_major, version_minor, len_bytes ! 0, len_bytes ! 1])"

definition fragment_at_offset ::
  "bytes \<Rightarrow> nat \<Rightarrow> (tls_record_slice \<times> tls_record_slice option) rust" where
  "fragment_at_offset data absolute_split_offset =
     (if length data \<le> TLS_RECORD_HEADER_SIZE \<or> absolute_split_offset \<le> TLS_RECORD_HEADER_SIZE \<or>
         absolute_split_offset \<ge> length data
      then
        bindR (if data \<noteq> [] then idx data 0 else Val 0x16) (\<lambda>content_type.
        bindR (if length data > 1 then idx data 1 else Val 0x03) (\<lambda>version_major.
        bindR (if length data > 2 then idx data 2 else Val 0x01) (\<lambda>version_minor.
        bindR (if length data \<ge> TLS_RECORD_HEADER_SIZE then slice_from data TLS_RECORD_HEADER_SIZE
               else Val []) (\<lambda>pl.
        Val (\<lparr>header = build_tls_header content_type version_major version_minor (length pl),
              payload = pl\<rparr>, None)))))
      else
        bindR (idx data 0) (\<lambda>content_type.
        bindR (idx data 1) (\<lambda>version_major.
        bindR (idx data 2) (\<lambda>version_minor.
        bindR (slice data TLS_RECORD_HEADER_SIZE absolute_split_offset) (\<lambda>payload1.
        bindR (slice_from data absolute_split_offset) (\<lambda>payload2.
        Val (\<lparr>header = build_tls_header content_type version_major version_minor (length payload1),
              payload = payload1\<rparr>,
             Some \<lparr>header = build_tls_header content_type version_major version_minor (length payload2),
                   payload = payload2\<rparr>)))))))"


section \<open>The receiver: a stream as TLS records\<close>

definition record_bytes :: "tls_record_slice \<Rightarrow> bytes" where
  "record_bytes r = header r @ payload r"

text \<open>
  A record is read when its header and all the payload its header announces have arrived;
  what is left over (an incomplete record) is returned with the records.
\<close>

function deframe :: "bytes \<Rightarrow> tls_record_slice list \<times> bytes" where
  "deframe s =
     (if length s < 5 then ([], s)
      else let n = unat (from_be_bytes (s ! 3) (s ! 4)) in
        if length s < 5 + n then ([], s)
        else let (rs, rest) = deframe (drop (5 + n) s)
             in (\<lparr>header = take 5 s, payload = take n (drop 5 s)\<rparr> # rs, rest))"
  by pat_completeness auto
termination
  by (relation "measure length") auto

declare deframe.simps [simp del]

text \<open>The handshake bytes the receiver collects: the payloads of the records in order.\<close>

definition handshake_bytes :: "bytes \<Rightarrow> bytes" where
  "handshake_bytes s = concat (map payload (fst (deframe s)))"

text \<open>A buffer that is one complete record: its length field is the length of the rest.\<close>

definition complete_record :: "bytes \<Rightarrow> bool" where
  "complete_record data \<longleftrightarrow>
     5 \<le> length data \<and> unat (from_be_bytes (data ! 3) (data ! 4)) = length data - 5"

lemma build_tls_header_simps [simp]:
  "length (build_tls_header t a b n) = 5"
  "build_tls_header t a b n ! 0 = t"
  "build_tls_header t a b n ! (Suc 0) = a"
  "build_tls_header t a b n ! 2 = b"
  "take 3 (build_tls_header t a b n) = [t, a, b]"
  by (simp_all add: build_tls_header_def Let_def)

lemma build_tls_header_len:
  "unat (from_be_bytes (build_tls_header t a b n ! 3) (build_tls_header t a b n ! 4)) = n mod 65536"
  by (simp add: build_tls_header_def Let_def to_be_bytes_def be_simps)

text \<open>One framed record in front of a stream is read first, and the rest is read as before.\<close>

lemma deframe_record:
  assumes "length h = 5" and "unat (from_be_bytes (h ! 3) (h ! 4)) = length p"
  shows "deframe (h @ p @ s) =
           (\<lparr>header = h, payload = p\<rparr> # fst (deframe s), snd (deframe s))"
  using assms by (subst deframe.simps) (simp add: nth_append Let_def split: prod.splits)

lemma deframe_header:
  assumes "length p < 65536"
  shows "deframe (build_tls_header t a b (length p) @ p @ s) =
           (\<lparr>header = build_tls_header t a b (length p), payload = p\<rparr> # fst (deframe s),
            snd (deframe s))"
  using assms by (intro deframe_record) (simp_all add: build_tls_header_len)

lemma deframe_complete:
  assumes "complete_record data"
  shows "deframe (data @ s) =
           (\<lparr>header = take 5 data, payload = drop 5 data\<rparr> # fst (deframe s), snd (deframe s))"
proof -
  have "deframe (take 5 data @ drop 5 data @ s) =
      (\<lparr>header = take 5 data, payload = drop 5 data\<rparr> # fst (deframe s), snd (deframe s))"
    using assms by (intro deframe_record) (auto simp: complete_record_def)
  then show ?thesis
    by (metis append.assoc append_take_drop_id)
qed


section \<open>The contract of a record splitter\<close>

locale record_splitter =
  fixes split_at :: "bytes \<Rightarrow> nat \<Rightarrow> (tls_record_slice \<times> tls_record_slice option) rust"
  assumes split_two:
    "5 < off \<Longrightarrow> off < length data \<Longrightarrow>
     split_at data off = Val
       (\<lparr>header = build_tls_header (data ! 0) (data ! 1) (data ! 2) (off - 5),
         payload = take (off - 5) (drop 5 data)\<rparr>,
        Some \<lparr>header = build_tls_header (data ! 0) (data ! 1) (data ! 2) (length data - off),
              payload = drop off data\<rparr>)"
begin

text \<open>Nothing of the payload is lost, added or reordered.\<close>

lemma payloads_join:
  assumes "5 < off" and "off < length data" and "split_at data off = Val (r1, Some r2)"
  shows "payload r1 @ payload r2 = drop 5 data" and "payload r1 \<noteq> []" and "payload r2 \<noteq> []"
proof -
  have "take (off - 5) (drop 5 data) @ drop (off - 5) (drop 5 data) = drop 5 data"
    by (rule append_take_drop_id)
  moreover have "drop (off - 5) (drop 5 data) = drop off data"
    using assms(1) by simp
  ultimately show "payload r1 @ payload r2 = drop 5 data" and "payload r1 \<noteq> []" and "payload r2 \<noteq> []"
    using split_two [OF assms(1,2)] assms by auto
qed

lemma headers_length:
  assumes "5 < off" and "off < length data" and "split_at data off = Val (r1, Some r2)"
  shows "length (header r1) = 5" and "length (header r2) = 5"
    and "take 3 (header r1) = [data ! 0, data ! 1, data ! 2]"
    and "take 3 (header r2) = [data ! 0, data ! 1, data ! 2]"
  using split_two [OF assms(1,2)] assms(3) by auto

text \<open>What a receiver reads: two records in place of one, then the stream as it was.\<close>

lemma receiver_view:
  assumes "5 < off" and "off < length data" and "length data < 65536 + 5"
    and "split_at data off = Val (r1, Some r2)"
  shows "deframe (record_bytes r1 @ record_bytes r2 @ s) =
           (r1 # r2 # fst (deframe s), snd (deframe s))"
proof -
  let ?h = "build_tls_header (data ! 0) (data ! 1) (data ! 2)"
  let ?p1 = "take (off - 5) (drop 5 data)" and ?p2 = "drop off data"
  have r: "r1 = \<lparr>header = ?h (length ?p1), payload = ?p1\<rparr>" "r2 = \<lparr>header = ?h (length ?p2), payload = ?p2\<rparr>"
    using split_two [OF assms(1,2)] assms(2,4) by auto
  have len: "length ?p1 < 65536" "length ?p2 < 65536"
    using assms(1-3) by auto
  have "deframe (?h (length ?p1) @ ?p1 @ ?h (length ?p2) @ ?p2 @ s) =
      (r1 # r2 # fst (deframe s), snd (deframe s))"
    unfolding deframe_header [OF len(1)] deframe_header [OF len(2)] r by simp
  then show ?thesis
    unfolding record_bytes_def r by (simp del: length_take length_drop)
qed

text \<open>For a complete record the handshake bytes the receiver collects are unchanged.\<close>

lemma handshake_unchanged:
  assumes "5 < off" and "off < length data" and "complete_record data"
    and "split_at data off = Val (r1, Some r2)"
  shows "handshake_bytes (record_bytes r1 @ record_bytes r2 @ s) = handshake_bytes (data @ s)"
    and "snd (deframe (record_bytes r1 @ record_bytes r2 @ s)) = snd (deframe (data @ s))"
proof -
  have "length data - 5 < 65536"
    using assms(3) unat_u16_less [of "from_be_bytes (data ! 3) (data ! 4)"]
    unfolding complete_record_def by linarith
  then have "length data < 65536 + 5" by linarith
  note v = receiver_view [OF assms(1,2) this assms(4)]
  show "handshake_bytes (record_bytes r1 @ record_bytes r2 @ s) = handshake_bytes (data @ s)"
    by (simp add: handshake_bytes_def v deframe_complete [OF assms(3)]
        payloads_join(1) [OF assms(1,2,4), symmetric])
  show "snd (deframe (record_bytes r1 @ record_bytes r2 @ s)) = snd (deframe (data @ s))"
    by (simp add: v deframe_complete [OF assms(3)])
qed

end

interpretation frag: record_splitter fragment_at_offset
proof
  fix off :: nat and data :: bytes
  assume a: "5 < off" "off < length data"
  have n: "data \<noteq> []" "min (length data - 5) (off - 5) = off - 5"
    using a by auto
  show "fragment_at_offset data off = Val
       (\<lparr>header = build_tls_header (data ! 0) (data ! 1) (data ! 2) (off - 5),
         payload = take (off - 5) (drop 5 data)\<rparr>,
        Some \<lparr>header = build_tls_header (data ! 0) (data ! 1) (data ! 2) (length data - off),
              payload = drop off data\<rparr>)"
    using a n by (simp add: fragment_at_offset_def TLS_RECORD_HEADER_SIZE_def slice_def slice_from_def)
qed

lemma safe_fragment_at_offset [panic_free]: "safe (fragment_at_offset data off)"
  unfolding fragment_at_offset_def by (intro panic_free) (auto simp: TLS_RECORD_HEADER_SIZE_def)

lemma fragment_single:
  assumes "fragment_at_offset data off = Val (r, None)"
  shows "payload r = drop 5 data"
  using assms by (auto simp: fragment_at_offset_def TLS_RECORD_HEADER_SIZE_def rust_conv split: if_splits)

lemma fragment_at_offset_some:
  assumes "5 < off" and "off < length data"
  shows "\<exists>r1 r2. fragment_at_offset data off = Val (r1, Some r2)"
  using frag.split_two [OF assms] by blast

text \<open>The branch that does not split: one record of everything after the header, or an empty one.\<close>

lemma fragment_at_offset_one:
  assumes "\<not> (5 < off \<and> off < length data)"
  shows "fragment_at_offset data off = Val
    (\<lparr>header = build_tls_header (if data \<noteq> [] then data ! 0 else 0x16)
        (if length data > 1 then data ! 1 else 0x03) (if length data > 2 then data ! 2 else 0x01)
        (length data - 5), payload = drop 5 data\<rparr>, None)"
proof -
  have "length data \<le> 5 \<or> off \<le> 5 \<or> length data \<le> off"
    using assms by auto
  then show ?thesis
    by (auto simp: fragment_at_offset_def TLS_RECORD_HEADER_SIZE_def idx_def slice_from_def)
qed

text \<open>
  A buffer that holds only the beginning of a record: \<open>k\<close> bytes of the payload its header
  announces are still to come.
\<close>

definition truncated_record :: "bytes \<Rightarrow> nat \<Rightarrow> bool" where
  "truncated_record data k \<longleftrightarrow>
     5 \<le> length data \<and> unat (from_be_bytes (data ! 3) (data ! 4)) = length data - 5 + k"

lemma deframe_truncated:
  assumes "truncated_record data k" and "length missing = k"
  shows "handshake_bytes (data @ missing @ s) = drop 5 data @ missing @ handshake_bytes s"
proof -
  have "complete_record (data @ missing)"
    using assms by (simp add: truncated_record_def complete_record_def nth_append)
  from deframe_complete [OF this, of s] show ?thesis
    using assms(1) by (simp add: handshake_bytes_def truncated_record_def)
qed


text \<open>
  The record for a part \<open>p\<close> of the payload of \<open>data\<close>: the first three header bytes of the input, or what
  stands for those that are missing, and the length of \<open>p\<close> in two bytes, modulo 65536 (the cast \<open>as u16\<close>).
\<close>

definition rewritten :: "bytes \<Rightarrow> bytes \<Rightarrow> tls_record_slice" where
  "rewritten data p =
     \<lparr>header = take 3 (data @ drop (length data) [0x16, 0x03, 0x01]) @ to_be_bytes (word_of_nat (length p)),
      payload = p\<rparr>"

lemma build_header_rewritten:
  "\<lparr>header = build_tls_header (if data \<noteq> [] then data ! 0 else 0x16) (if length data > 1 then data ! 1 else 0x03)
      (if length data > 2 then data ! 2 else 0x01) (length p), payload = p\<rparr> = rewritten data p"
proof -
  have "take 3 (data @ drop (length data) [0x16, 0x03, 0x01]) =
      [if data \<noteq> [] then data ! 0 else 0x16, if length data > 1 then data ! 1 else 0x03,
       if length data > 2 then data ! 2 else 0x01]"
    by (cases data rule: remdups_adj.cases; cases "tl (tl data)") auto
  then show ?thesis
    by (simp add: rewritten_def build_tls_header_def to_be_bytes_def Let_def)
qed


section \<open>Properties\<close>

text \<open>
  C7: Splitting a complete TLS record is invisible to the TLS layer above the record layer:
  for every split offset inside the payload, the receiver of the two records collects exactly
  the handshake bytes of the original record and goes on with the same rest of the stream.
\<close>

theorem fragmentation_preserves_handshake:
  assumes "complete_record data" and "5 < off" and "off < length data"
    and "fragment_at_offset data off = Val (r1, Some r2)"
  shows "handshake_bytes (record_bytes r1 @ record_bytes r2 @ s) = handshake_bytes (data @ s) \<and>
         snd (deframe (record_bytes r1 @ record_bytes r2 @ s)) = snd (deframe (data @ s)) \<and>
         payload r1 \<noteq> [] \<and> payload r2 \<noteq> []"
  using frag.handshake_unchanged [OF assms(2,3,1,4)] frag.payloads_join [OF assms(2,3,4)] by simp

theorem fragmentation_preserves_handshake_witness:
  "let data = [0x16, 3, 1, 0, 6, 1, 2, 3, 4, 5, 6] :: bytes;
       r1 = \<lparr>header = [0x16, 3, 1, 0, 2], payload = [1, 2]\<rparr>;
       r2 = \<lparr>header = [0x16, 3, 1, 0, 4], payload = [3, 4, 5, 6]\<rparr>
   in handshake_bytes (record_bytes r1 @ record_bytes r2 @ [0x17]) = handshake_bytes (data @ [0x17]) \<and>
      snd (deframe (record_bytes r1 @ record_bytes r2 @ [0x17])) = snd (deframe (data @ [0x17])) \<and>
      payload r1 \<noteq> [] \<and> payload r2 \<noteq> []"
  unfolding Let_def
  by (rule fragmentation_preserves_handshake [where off = 7]) code_simp+

text \<open>
  C19: \<open>fragment_at_offset\<close> never panics, on any buffer and any offset, and this is its result: when the
  offset lies inside the payload, two records, of which the first holds the payload up to the offset
  and the second the rest; otherwise one record with all that follows the header. Every header
  repeats the content type and version of the input, with the defaults 22, 3, 1 for missing bytes.
\<close>

theorem fragment_at_offset_total:
  "fragment_at_offset data off = Val
     (if 5 < off \<and> off < length data
      then (rewritten data (take (off - 5) (drop 5 data)), Some (rewritten data (drop off data)))
      else (rewritten data (drop 5 data), None))"
proof (cases "5 < off \<and> off < length data")
  case True
  with build_header_rewritten [of data "take (off - 5) (drop 5 data)"] build_header_rewritten [of data "drop off data"]
  show ?thesis
    using frag.split_two [of off data] by (simp split: if_splits)
next
  case False
  with build_header_rewritten [of data "drop 5 data"] show ?thesis
    unfolding fragment_at_offset_one [OF False] by simp
qed
text \<open>
  C33: When the buffer ends before the record does (a ClientHello that arrived in more than
  one read), the rewritten headers announce only the bytes at hand: the \<open>k\<close> missing bytes, which
  the client sends next, then stand outside of any record, and the receiver reads them as the
  beginning of a new record instead of as the end of the handshake message.
\<close>

theorem truncated_record_desynchronises:
  assumes "truncated_record data k" and "length missing = k" and "5 < off" and "off < length data"
    and "length data < 65536 + 5" and "fragment_at_offset data off = Val (r1, Some r2)"
  shows "handshake_bytes (data @ missing @ s) = drop 5 data @ missing @ handshake_bytes s \<and>
         handshake_bytes (record_bytes r1 @ record_bytes r2 @ missing @ s) =
           drop 5 data @ handshake_bytes (missing @ s)"
  using deframe_truncated [OF assms(1,2)] frag.receiver_view [OF assms(3,4,5,6)]
    frag.payloads_join(1) [OF assms(3,4,6), symmetric]
  by (simp add: handshake_bytes_def)

theorem truncated_record_desynchronises_witness:
  "handshake_bytes ([0x16, 3, 1, 0, 9, 1, 2, 3, 4] @ [5, 6, 7, 8, 9] @ []) =
     drop 5 [0x16, 3, 1, 0, 9, 1, 2, 3, 4] @ [5, 6, 7, 8, 9] @ handshake_bytes [] \<and>
   handshake_bytes (record_bytes \<lparr>header = [0x16, 3, 1, 0, 2], payload = [1, 2]\<rparr> @
       record_bytes \<lparr>header = [0x16, 3, 1, 0, 2], payload = [3, 4]\<rparr> @ [5, 6, 7, 8, 9] @ []) =
     drop 5 [0x16, 3, 1, 0, 9, 1, 2, 3, 4] @ handshake_bytes ([5, 6, 7, 8, 9] @ [])"
proof (rule truncated_record_desynchronises [where k = 5 and off = 7])
  show "fragment_at_offset [0x16, 3, 1, 0, 9, 1, 2, 3, 4] 7 =
      Val (\<lparr>header = [0x16, 3, 1, 0, 2], payload = [1, 2]\<rparr>,
           Some \<lparr>header = [0x16, 3, 1, 0, 2], payload = [3, 4]\<rparr>)"
    by code_simp
qed (simp_all add: truncated_record_def be_simps)

end
