(* ===== verification/Net_Send.thy ===== *)
theory Net_Send
  imports Net_Io Tls_Fragmenter
begin

text \<open>
  The senders: \<open>write_all_vectored\<close> and \<open>transmit_tls_records\<close> of \<^verbatim>\<open>src/proxy.rs\<close>,
  \<open>split_and_write\<close> and \<open>random_delay\<close> of \<^verbatim>\<open>src/utils.rs\<close>. The locale \<open>byte_sender\<close> is their
  contract: on success exactly the content has been written, on an error a prefix of it, and
  no other connection is touched. All of them are shown to satisfy it, whatever the sizes of
  the partial writes are. Both loops are shown to end.
\<close>

section \<open>Vectored writes\<close>

text \<open>The first inner loop: slices that are written completely are dropped.\<close>

fun skip_written :: "bytes list \<Rightarrow> nat \<Rightarrow> bytes list \<times> nat" where
  "skip_written [] off = ([], off)"
| "skip_written (s # slices) off = (if off \<ge> length s then skip_written slices 0 else (s # slices, off))"

text \<open>The second inner loop: account for the bytes that were accepted.\<close>

fun advance :: "bytes list \<Rightarrow> nat \<Rightarrow> nat \<Rightarrow> (bytes list \<times> nat) rust" where
  "advance [] off remaining = Val ([], off)"
| "advance (s # slices) off remaining =
     (if remaining > 0 then
        bindR (sub_checked (length s) off) (\<lambda>active_len.
        if remaining \<ge> active_len then advance slices 0 (remaining - active_len)
        else Val (s # slices, off + remaining))
      else Val (s # slices, off))"

text \<open>At most four slices are offered at once, the first one from the offset on.\<close>

definition offered_slices :: "bytes list \<Rightarrow> nat \<Rightarrow> bytes list rust" where
  "offered_slices slices off =
     bindR (idx slices 0) (\<lambda>s0.
     bindR (slice_from s0 off) (\<lambda>first.
     let count = min (length slices) 4 in
     Val (first # drop 1 (take count slices))))"

text \<open>The bytes that are still to be written.\<close>

definition pending :: "bytes list \<Rightarrow> nat \<Rightarrow> bytes" where
  "pending slices off = (case slices of [] \<Rightarrow> [] | s # r \<Rightarrow> drop off s @ concat r)"

lemma pending_simps [simp]:
  "pending [] off = []"
  "pending (s # r) off = drop off s @ concat r"
  by (simp_all add: pending_def)

lemma pending_0: "pending slices 0 = concat slices"
  by (cases slices) auto

lemma pending_skip: "pending (fst (skip_written slices off)) (snd (skip_written slices off)) = pending slices off"
  by (induction slices off rule: skip_written.induct) (auto simp: pending_0)

lemma skip_written_head:
  "skip_written slices off = (s # r, off') \<Longrightarrow> off' < length s"
  by (induction slices off rule: skip_written.induct) (auto split: if_splits)

text \<open>The offset lies in the first slice.\<close>

definition off_ok :: "bytes list \<Rightarrow> nat \<Rightarrow> bool" where
  "off_ok slices off \<longleftrightarrow> (case slices of [] \<Rightarrow> True | s # _ \<Rightarrow> off \<le> length s)"

lemma advance_pending:
  "off_ok slices off \<Longrightarrow> n \<le> length (pending slices off) \<Longrightarrow>
   \<exists>slices' off'. advance slices off n = Val (slices', off') \<and> off_ok slices' off' \<and>
     pending slices' off' = drop n (pending slices off)"
proof (induction slices off n rule: advance.induct)
  case (2 s slices off n)
  show ?case
  proof (cases "0 < n \<and> length s - off \<le> n")
    case True
    have o: "off \<le> length s" using "2.prems"(1) by (simp add: off_ok_def)
    then have sub: "sub_checked (length s) off = Val (length s - off)"
      by (simp add: sub_checked_def)
    have p: "off_ok slices 0"
      by (simp add: off_ok_def split: list.splits)
    have "n - (length s - off) \<le> length (pending slices 0)"
      using "2.prems"(2) o by (simp add: pending_0)
    from "2.IH" [OF conjunct1 [OF True] sub conjunct2 [OF True] p this] obtain slices' off' where
      "advance slices 0 (n - (length s - off)) = Val (slices', off')" "off_ok slices' off'"
      "pending slices' off' = drop (n - (length s - off)) (pending slices 0)"
      by blast
    moreover have "drop n (drop off s @ concat slices) = drop (n - (length s - off)) (concat slices)"
      using True by simp linarith
    ultimately show ?thesis
      using True sub by (simp add: pending_0)
  next
    case False
    with "2.prems" show ?thesis
      by (auto simp: off_ok_def sub_checked_def add.commute)
  qed
qed (simp add: off_ok_def)

lemma offered_prefix:
  assumes "off \<le> length s"
  shows "offered_slices (s # r) off = Val (drop off s # take 3 r)"
  using assms by (simp add: offered_slices_def slice_from_def Let_def min_def)

lemma concat_take_prefix: "concat r = concat (take k r) @ concat (drop k r)"
  by (metis append_take_drop_id concat_append)

text \<open>
  Every pass of the outer loop that goes on has written at least one byte, so the loop ends
  after at most as many passes as there are bytes.
\<close>

function write_vectored_loop :: "env \<Rightarrow> sock \<Rightarrow> bytes list \<Rightarrow> nat \<Rightarrow> history \<Rightarrow> unit res \<times> history" where
  "write_vectored_loop env s slices off h =
     (let (slices, off) = skip_written slices off in
      if slices = [] then okI () h
      else bindI (liftR (offered_slices slices off)) (\<lambda>bufs h.
           bindI (tcp_write_vectored env s bufs) (\<lambda>n h.
           if n = 0 then errI Write_Zero h
           else bindI (liftR (advance slices off n)) (\<lambda>(slices, off) h.
                write_vectored_loop env s slices off h) h) h) h)"
  by pat_completeness auto
termination
proof (relation "measure (\<lambda>(env, s, slices, off, h). length (pending slices off))", goal_cases)
  case (2 env s slices off h p slices' off' bufs h1 n h2 q h3 slices2 off2)
  obtain s0 r where s: "slices' = s0 # r"
    using 2 by (cases slices') auto
  have o: "off' < length s0"
    using 2 s skip_written_head [of slices off s0 r off'] by simp
  have p: "pending slices' off' = pending slices off"
    using 2 pending_skip [of slices off] by (metis fst_conv snd_conv)
  have "bufs = drop off' s0 # take 3 r"
    using 2 s o offered_prefix [of off' s0 r] by (simp add: liftR_def)
  then have "n \<le> length (drop off' s0 @ concat (take 3 r))"
    using 2 by (auto simp: tcp_write_vectored_def Let_def split: sum.splits)
  also have "\<dots> \<le> length (pending slices' off')"
    using concat_take_prefix [of r 3] s by simp
  finally have n: "n \<le> length (pending slices' off')" .
  have "off_ok slices' off'"
    using s o by (simp add: off_ok_def)
  from advance_pending [OF this n] have "pending slices2 off2 = drop n (pending slices' off')"
    using 2 by (auto simp: liftR_def)
  with n p 2 show ?case by simp
qed simp

declare write_vectored_loop.simps [simp del]

definition write_all_vectored :: "env \<Rightarrow> sock \<Rightarrow> bytes list \<Rightarrow> unit io" where
  "write_all_vectored env s slices = write_vectored_loop env s slices 0"


lemma write_vectored_loop_done:
  "fst (skip_written slices off) = [] \<Longrightarrow> write_vectored_loop env s slices off = okI ()"
  by (rule ext, cases "skip_written slices off") (subst write_vectored_loop.simps, simp)

lemma write_vectored_loop_step:
  assumes "skip_written slices off = (s0 # r, off')"
  shows "write_vectored_loop env s slices off =
    bindI (tcp_write_vectored env s (drop off' s0 # take 3 r)) (\<lambda>n.
      if n = 0 then errI Write_Zero
      else bindI (liftR (advance (s0 # r) off' n)) (\<lambda>(slices, off). write_vectored_loop env s slices off))"
proof (rule ext)
  fix h
  have "off' < length s0" by (rule skip_written_head [OF assms])
  then have "offered_slices (s0 # r) off' = Val (drop off' s0 # take 3 r)"
    by (intro offered_prefix) simp
  then show "write_vectored_loop env s slices off h = bindI (tcp_write_vectored env s (drop off' s0 # take 3 r)) (\<lambda>n.
      if n = 0 then errI Write_Zero
      else bindI (liftR (advance (s0 # r) off' n)) (\<lambda>(slices, off). write_vectored_loop env s slices off)) h"
    using assms
    by (subst write_vectored_loop.simps)
      (auto simp: bindI_def liftR_def split: res.splits prod.splits intro!: ext)
qed

lemma write_vectored_loop_does:
  assumes P: "\<And>bs. P (Wrote s bs)" "P (Failed s)"
  shows "does (\<lambda>es r. list_all P es \<and> (\<forall>s'. s' \<noteq> s \<longrightarrow> sent s' es = []) \<and>
      (case r of Ok _ \<Rightarrow> sent s es = pending slices off | Err _ \<Rightarrow> prefix (sent s es) (pending slices off)
       | Panicked \<Rightarrow> False)) (write_vectored_loop env s slices off)"
proof (induction "length (pending slices off)" arbitrary: slices off rule: less_induct)
  case less
  show ?case
  proof (cases "fst (skip_written slices off)")
    case Nil
    then have "pending slices off = []"
      using pending_skip [of slices off] by simp
    with Nil show ?thesis
      by (simp add: write_vectored_loop_done does_ok)
  next
    case (Cons s0 r)
    then obtain off' where sk: "skip_written slices off = (s0 # r, off')"
      by (cases "skip_written slices off") auto
    let ?p = "pending slices off" and ?b = "drop off' s0 # take 3 r"
    have o: "off_ok (s0 # r) off'"
      using skip_written_head [OF sk] by (simp add: off_ok_def)
    have p: "?p = drop off' s0 @ concat r"
      using pending_skip [of slices off] sk by simp
    then have pb: "?p = concat ?b @ concat (drop 3 r)"
      using concat_take_prefix [of r 3] by simp
    show ?thesis
      unfolding write_vectored_loop_step [OF sk]
    proof (rule does_bind [OF does_write_vectored,
          where Q = "\<lambda>n es r. list_all P es \<and> (\<forall>s'. s' \<noteq> s \<longrightarrow> sent s' es = []) \<and>
            (case r of Ok _ \<Rightarrow> sent s es = drop n ?p | Err _ \<Rightarrow> prefix (sent s es) (drop n ?p) | Panicked \<Rightarrow> False)"],
        goal_cases)
      case (1 es n)
      then have "n \<le> length (concat ?b)" by simp
      also have "\<dots> \<le> length (pending (s0 # r) off')"
        using concat_take_prefix [of r 3] by simp
      finally have n: "n \<le> length (pending (s0 # r) off')" .
      from advance_pending [OF o n] obtain sl2 o2 where
        a: "advance (s0 # r) off' n = Val (sl2, o2)" "pending sl2 o2 = drop n ?p"
        using p by auto
      have "does (\<lambda>es r. list_all P es \<and> (\<forall>s'. s' \<noteq> s \<longrightarrow> sent s' es = []) \<and>
            (case r of Ok _ \<Rightarrow> sent s es = drop n ?p | Err _ \<Rightarrow> prefix (sent s es) (drop n ?p) | Panicked \<Rightarrow> False))
          (if n = 0 then errI Write_Zero else write_vectored_loop env s sl2 o2)"
      proof (cases "n = 0")
        case False
        then have "length (pending sl2 o2) < length ?p"
          using n a(2) p by simp
        from less [OF this] False show ?thesis unfolding a(2) by simp
      qed (simp add: does_err)
      moreover have "bindI (liftR (Val (sl2, o2))) (\<lambda>(slices, off). write_vectored_loop env s slices off) =
          write_vectored_loop env s sl2 o2"
        by (rule ext) (simp add: bindI_def liftR_def)
      ultimately show ?case
        unfolding a(1) by (cases "n = 0") simp_all
    next
      case (4 es n es' r)
      have "take n (concat ?b) @ drop n ?p = ?p"
      proof -
        have "take n (concat ?b) = take n ?p"
          using 4(1) unfolding pb by simp
        then show ?thesis by simp
      qed
      with 4 show ?case
        using P by (auto split: res.splits) (metis same_prefix_prefix)+
    qed (use P in auto)
  qed
qed

lemma write_vectored_loop_delivers:
  "delivers s (pending slices off) (write_vectored_loop env s slices off)"
  unfolding delivers_def by (rule does_mono [OF write_vectored_loop_does [of "\<lambda>_. True"]]) simp_all

lemma emits_write_all_vectored [emits_intros]:
  "(\<And>bs. P (Wrote s bs)) \<Longrightarrow> P (Failed s) \<Longrightarrow> emits P (write_all_vectored env s slices)"
  unfolding emits_def write_all_vectored_def
  by (rule does_mono [OF write_vectored_loop_does [of P]]) auto


section \<open>Writing in random segments, and the delay\<close>

function split_loop :: "env \<Rightarrow> sock \<Rightarrow> bytes \<Rightarrow> nat \<Rightarrow> history \<Rightarrow> unit res \<times> history" where
  "split_loop env s data offset h =
     (if offset < length data then
        bindI (random_range env 80 256) (\<lambda>n h.
        let chunk_size = min n (length data - offset) in
        bindI (liftR (slice data offset (offset + chunk_size))) (\<lambda>chunk h.
        bindI (tcp_write_all env s chunk) (\<lambda>_ h.
        split_loop env s data (offset + chunk_size) h) h) h) h
      else okI () h)"
  by pat_completeness auto
termination
  by (relation "measure (\<lambda>(env, s, data, offset, h). length data - offset)")
    (auto simp: random_range_def Let_def min_def)

declare split_loop.simps [simp del]

definition split_and_write :: "env \<Rightarrow> bytes \<Rightarrow> sock \<Rightarrow> unit io" where
  "split_and_write env data s =
     (if data = [] then okI ()
      else bindI (split_loop env s data 0) (\<lambda>_. tcp_flush env s))"

definition random_delay :: "env \<Rightarrow> nat \<Rightarrow> nat \<Rightarrow> unit io" where
  "random_delay env min_ms max_ms =
     bindI (random_range env min_ms max_ms) (\<lambda>delay_ms. sleep_ms delay_ms)"

lemma split_loop_step:
  assumes "offset < length data"
  shows "split_loop env s data offset =
    bindI (random_range env 80 256) (\<lambda>n.
      bindI (tcp_write_all env s (take n (drop offset data))) (\<lambda>_.
      split_loop env s data (offset + min n (length data - offset))))"
proof (rule ext)
  fix h
  have "slice data offset (offset + min n (length data - offset)) = Val (take n (drop offset data))" for n
    using assms by (auto simp: slice_def min_def)
  then show "split_loop env s data offset h = bindI (random_range env 80 256) (\<lambda>n.
      bindI (tcp_write_all env s (take n (drop offset data))) (\<lambda>_.
      split_loop env s data (offset + min n (length data - offset)))) h"
    using assms
    by (subst split_loop.simps) (simp add: bindI_def liftR_def Let_def split: res.splits prod.splits)
qed

lemma split_loop_delivers: "delivers s (drop offset data) (split_loop env s data offset)"
proof (induction "length data - offset" arbitrary: offset rule: less_induct)
  case less
  show ?case
  proof (cases "offset < length data")
    case True
    have IH: "delivers s (drop (offset + min n (length data - offset)) data)
        (split_loop env s data (offset + min n (length data - offset)))" if "80 \<le> n" for n
      using that True by (intro less) auto
    have c: "take n (drop offset data) @ drop (offset + min n (length data - offset)) data = drop offset data" for n
    proof -
      have "drop (offset + min n (length data - offset)) data = drop n (drop offset data)"
        by (cases "n \<le> length data - offset") (simp_all add: min_def add.commute)
      then show ?thesis by (simp only: append_take_drop_id)
    qed
    have W: "delivers s (drop offset data) (bindI (tcp_write_all env s (take n (drop offset data))) (\<lambda>_.
        split_loop env s data (offset + min n (length data - offset))))" if "80 \<le> n" for n
      using delivers_bind [OF delivers_write_all [of s "take n (drop offset data)" env] IH [OF that]]
      unfolding c .
    show ?thesis
      unfolding split_loop_step [OF True] delivers_def
      by (rule does_bind [OF does_random, where Q = "\<lambda>_ es r. (\<forall>s'. s' \<noteq> s \<longrightarrow> sent s' es = []) \<and>
            (case r of Ok _ \<Rightarrow> sent s es = drop offset data | Err _ \<Rightarrow> prefix (sent s es) (drop offset data)
             | Panicked \<Rightarrow> False)"])
        (use W in \<open>auto simp: delivers_def split: res.splits\<close>)
  next
    case False
    then have "split_loop env s data offset = okI ()"
      by (intro ext) (subst split_loop.simps, simp)
    with False show ?thesis by (simp add: delivers_ok)
  qed
qed


lemma random_delay_silent: "lo \<le> hi \<Longrightarrow> delivers s [] (random_delay env lo hi)"
  unfolding random_delay_def by (rule delivers_silent) (intro emits_intros; simp)


section \<open>Sending the two records\<close>

definition transmit_tls_records ::
  "env \<Rightarrow> sock \<Rightarrow> tls_record_slice \<Rightarrow> tls_record_slice option \<Rightarrow> bytes \<Rightarrow> bool \<Rightarrow> unit io" where
  "transmit_tls_records env remote rec1 rec2 trailing_data is_meta =
     bindI (write_all_vectored env remote [header rec1, payload rec1]) (\<lambda>_.
     bindI (tcp_flush env remote) (\<lambda>_.
     bindI (if \<not> is_meta then random_delay env 1 5 else okI ()) (\<lambda>_.
     bindI (case rec2 of
              Some rec2 \<Rightarrow>
                if trailing_data \<noteq> []
                then write_all_vectored env remote [header rec2, payload rec2, trailing_data]
                else write_all_vectored env remote [header rec2, payload rec2]
            | None \<Rightarrow>
                if trailing_data \<noteq> [] then tcp_write_all env remote trailing_data else okI ()) (\<lambda>_.
     tcp_flush env remote))))"


section \<open>The contract of the senders\<close>

text \<open>
  What a call of a sender with content \<open>p\<close> on socket \<open>s\<close> does to the connections: on success
  all of \<open>p\<close> is written after what was there, on an error a prefix of it; the other
  sockets are as before, and there is no panic.
\<close>

definition delivered :: "sock \<Rightarrow> bytes \<Rightarrow> history \<Rightarrow> unit res \<times> history \<Rightarrow> bool" where
  "delivered s p h out \<longleftrightarrow>
     (\<forall>s'. s' \<noteq> s \<longrightarrow> sent s' (snd out) = sent s' h) \<and>
     (case fst out of
        Ok _ \<Rightarrow> sent s (snd out) = sent s h @ p
      | Err _ \<Rightarrow> (\<exists>q. prefix q p \<and> sent s (snd out) = sent s h @ q)
      | Panicked \<Rightarrow> False)"

locale byte_sender =
  fixes send :: "env \<Rightarrow> sock \<Rightarrow> 'x \<Rightarrow> unit io" and content :: "'x \<Rightarrow> bytes"
  assumes sends_content: "delivers s (content x) (send env s x)"
begin

lemma outcome:
  "\<exists>es r. send env s x h = (r, h @ es) \<and> (\<forall>s'. s' \<noteq> s \<longrightarrow> sent s' es = []) \<and>
     (case r of Ok _ \<Rightarrow> sent s es = content x | Err _ \<Rightarrow> prefix (sent s es) (content x) | Panicked \<Rightarrow> False)"
  by (rule doesD [OF sends_content [unfolded delivers_def]])

lemma no_panic: "fst (send env s x h) \<noteq> Panicked"
  using outcome [of env s x h] by auto

lemma extends_history: "\<exists>es. snd (send env s x h) = h @ es"
  using outcome [of env s x h] by auto

lemma success: "fst (send env s x h) = Ok () \<Longrightarrow> sent s (snd (send env s x h)) = sent s h @ content x"
  using outcome [of env s x h] by auto

lemma failure:
  "fst (send env s x h) = Err e \<Longrightarrow> \<exists>p. prefix p (content x) \<and> sent s (snd (send env s x h)) = sent s h @ p"
  using outcome [of env s x h] by auto

lemma isolation: "s' \<noteq> s \<Longrightarrow> sent s' (snd (send env s x h)) = sent s' h"
  using outcome [of env s x h] by auto

text \<open>The whole contract of one call.\<close>

lemma contract:
  "delivered s (content x) h (send env s x h)"
proof -
  obtain es r where o: "send env s x h = (r, h @ es)" "\<forall>s'. s' \<noteq> s \<longrightarrow> sent s' es = []"
    "case r of Ok _ \<Rightarrow> sent s es = content x | Err _ \<Rightarrow> prefix (sent s es) (content x) | Panicked \<Rightarrow> False"
    using outcome [of env s x h] by blast
  then show ?thesis by (cases r) (simp_all add: delivered_def)
qed

end

interpretation vectored: byte_sender write_all_vectored concat
proof
  fix env s and slices :: "bytes list"
  show "delivers s (concat slices) (write_all_vectored env s slices)"
    unfolding write_all_vectored_def pending_0 [symmetric] by (rule write_vectored_loop_delivers)
qed

interpretation segmented: byte_sender "\<lambda>env s data. split_and_write env data s" "\<lambda>data. data"
proof
  fix env s data
  have "delivers s (data @ []) (bindI (split_loop env s data 0) (\<lambda>_. tcp_flush env s))"
    by (rule delivers_bind [OF split_loop_delivers [of s 0 data, simplified] delivers_flush])
  then show "delivers s data (split_and_write env data s)"
    by (simp add: split_and_write_def delivers_ok)
qed

interpretation records: byte_sender
  "\<lambda>env s (rec1, rec2, trailing, meta). transmit_tls_records env s rec1 rec2 trailing meta"
  "\<lambda>(rec1, rec2, trailing, meta).
     record_bytes rec1 @ (case rec2 of None \<Rightarrow> [] | Some r \<Rightarrow> record_bytes r) @ trailing"
proof
  fix s env and x :: "tls_record_slice \<times> tls_record_slice option \<times> bytes \<times> bool"
  obtain rec1 rec2 trailing meta where x: "x = (rec1, rec2, trailing, meta)"
    by (metis prod_cases4)
  note v = vectored.sends_content [of s _ env]
  have second: "delivers s ((case rec2 of None \<Rightarrow> [] | Some r \<Rightarrow> record_bytes r) @ trailing)
      (case rec2 of
         Some rec2 \<Rightarrow>
           if trailing \<noteq> [] then write_all_vectored env s [header rec2, payload rec2, trailing]
           else write_all_vectored env s [header rec2, payload rec2]
       | None \<Rightarrow> if trailing \<noteq> [] then tcp_write_all env s trailing else okI ())"
    using v [of "[header (the rec2), payload (the rec2), trailing]"]
      v [of "[header (the rec2), payload (the rec2)]"] delivers_write_all [of s trailing env]
    by (auto simp: record_bytes_def delivers_ok split: option.splits)
  have "delivers s [] (if \<not> meta then random_delay env 1 5 else okI ())"
    by (simp add: random_delay_silent delivers_ok)
  from delivers_bind [OF v [of "[header rec1, payload rec1]"]
      delivers_then [OF delivers_flush [of s env]
        delivers_then [OF this delivers_bind [OF second delivers_flush [of s env]]]]]
  show "delivers s (case x of (rec1, rec2, trailing, meta) \<Rightarrow>
        record_bytes rec1 @ (case rec2 of None \<Rightarrow> [] | Some r \<Rightarrow> record_bytes r) @ trailing)
      (case x of (rec1, rec2, trailing, meta) \<Rightarrow> transmit_tls_records env s rec1 rec2 trailing meta)"
    by (simp add: x transmit_tls_records_def record_bytes_def)
qed



section \<open>When the pause is made\<close>

definition is_pause :: "event \<Rightarrow> bool" where
  "is_pause e = (case e of Slept _ \<Rightarrow> True | _ \<Rightarrow> False)"

lemma is_pause_simps [simp]:
  "\<not> is_pause (Wrote s bs)" "\<not> is_pause (Failed s)" "\<not> is_pause (Flushed s)" "\<not> is_pause (Drew lo hi v)"
  "is_pause (Slept n)"
  by (simp_all add: is_pause_def)

definition quiet :: "history \<Rightarrow> bool" where
  "quiet es \<longleftrightarrow> list_all (\<lambda>e. \<not> is_pause e) es"

definition pause :: "bool \<Rightarrow> nat \<Rightarrow> history" where
  "pause is_meta t = (if is_meta then [] else [Drew 1 5 t, Slept t])"

text \<open>A quiet sender: no pause while its bytes are written.\<close>

definition sends_quietly :: "sock \<Rightarrow> bytes \<Rightarrow> unit io \<Rightarrow> bool" where
  "sends_quietly s p m \<longleftrightarrow>
     does (\<lambda>es r. quiet es \<and> (case r of Ok _ \<Rightarrow> sent s es = p | Err _ \<Rightarrow> True | Panicked \<Rightarrow> False)) m"

lemma quietI:
  assumes "delivers s p m" and "emits (\<lambda>e. \<not> is_pause e) m"
  shows "sends_quietly s p m"
  unfolding sends_quietly_def quiet_def
  by (rule does_mono [OF does_conj [OF assms [unfolded delivers_def emits_def]]]) (auto split: res.splits)

lemma quiet_bind: "sends_quietly s p m \<Longrightarrow> (\<And>x. sends_quietly s q (f x)) \<Longrightarrow> sends_quietly s (p @ q) (bindI m f)"
proof -
  assume m: "sends_quietly s p m" and f: "\<And>x. sends_quietly s q (f x)"
  show "sends_quietly s (p @ q) (bindI m f)"
    unfolding sends_quietly_def
    by (rule does_bind [OF m [unfolded sends_quietly_def] f [unfolded sends_quietly_def]])
      (auto simp: quiet_def split: res.splits)
qed

lemma quiet_vectored: "sends_quietly s (concat slices) (write_all_vectored env s slices)"
  by (intro quietI vectored.sends_content emits_intros) simp_all

lemma quiet_flush: "sends_quietly s [] (tcp_flush env s)"
  by (intro quietI delivers_flush emits_intros) simp_all

lemma quiet_write_all: "sends_quietly s data (tcp_write_all env s data)"
  by (intro quietI delivers_write_all emits_intros) simp_all

lemma quiet_ok: "sends_quietly s [] (okI ())"
  by (intro quietI delivers_ok emits_intros)

lemma does_pause:
  "does (\<lambda>es r. r = Ok () \<and> (\<exists>t. 1 \<le> t \<and> t \<le> 5 \<and> es = pause is_meta t))
     (if \<not> is_meta then random_delay env 1 5 else okI ())"
proof (cases is_meta)
  case True
  then show ?thesis by (auto simp: pause_def intro!: does_ok exI [of _ 1])
next
  case False
  have "does (\<lambda>es r. r = Ok () \<and> (\<exists>t. 1 \<le> t \<and> t \<le> 5 \<and> es = pause is_meta t)) (random_delay env 1 5)"
    unfolding random_delay_def
  proof (rule does_bind [OF does_random, where Q = "\<lambda>v es r. r = Ok () \<and> es = [Slept v]"])
    show "does (\<lambda>es r. r = Ok () \<and> es = [Slept x]) (sleep_ms x)" for x
      by (rule doesI) (simp add: sleep_ms_def)
  qed (auto simp: pause_def False)
  with False show ?thesis by simp
qed

lemma transmit_order:
  "does (\<lambda>es r. case r of
      Ok _ \<Rightarrow> \<exists>es1 t es2. es = es1 @ pause is_meta t @ es2 \<and> 1 \<le> t \<and> t \<le> 5 \<and> quiet es1 \<and> quiet es2 \<and>
        sent s es1 = record_bytes rec1 \<and>
        sent s es2 = (case rec2 of None \<Rightarrow> [] | Some r \<Rightarrow> record_bytes r) @ trailing
    | Err _ \<Rightarrow> True | Panicked \<Rightarrow> False)
   (transmit_tls_records env s rec1 rec2 trailing is_meta)"
proof -
  let ?second = "case rec2 of
         Some rec2 \<Rightarrow>
           if trailing \<noteq> [] then write_all_vectored env s [header rec2, payload rec2, trailing]
           else write_all_vectored env s [header rec2, payload rec2]
       | None \<Rightarrow> if trailing \<noteq> [] then tcp_write_all env s trailing else okI ()"
  let ?q = "(case rec2 of None \<Rightarrow> [] | Some r \<Rightarrow> record_bytes r) @ trailing"
  have first: "sends_quietly s (record_bytes rec1)
      (bindI (write_all_vectored env s [header rec1, payload rec1]) (\<lambda>_. tcp_flush env s))"
    using quiet_bind [OF quiet_vectored [of s "[header rec1, payload rec1]" env] quiet_flush [of s env]]
    by (simp add: record_bytes_def)
  have "sends_quietly s ?q ?second"
    using quiet_vectored [of s "[header (the rec2), payload (the rec2), trailing]" env]
      quiet_vectored [of s "[header (the rec2), payload (the rec2)]" env]
      quiet_write_all [of s trailing env] quiet_ok [of s]
    by (auto simp: record_bytes_def split: option.splits)
  from quiet_bind [OF this quiet_flush [of s env]]
  have second: "sends_quietly s ?q (bindI ?second (\<lambda>_. tcp_flush env s))" by simp
  have assoc: "transmit_tls_records env s rec1 rec2 trailing is_meta =
      bindI (bindI (write_all_vectored env s [header rec1, payload rec1]) (\<lambda>_. tcp_flush env s)) (\<lambda>_.
      bindI (if \<not> is_meta then random_delay env 1 5 else okI ()) (\<lambda>_. bindI ?second (\<lambda>_. tcp_flush env s)))"
    unfolding transmit_tls_records_def
    by (rule ext) (simp add: bindI_def split: res.splits prod.splits)
  let ?Q = "\<lambda>es r. case r of
      Ok _ \<Rightarrow> \<exists>t es2. es = pause is_meta t @ es2 \<and> 1 \<le> t \<and> t \<le> 5 \<and> quiet es2 \<and> sent s es2 = ?q
    | Err _ \<Rightarrow> True | Panicked \<Rightarrow> False"
  have rest: "does ?Q (bindI (if \<not> is_meta then random_delay env 1 5 else okI ())
      (\<lambda>_. bindI ?second (\<lambda>_. tcp_flush env s)))"
    by (rule does_bind [OF does_pause second [unfolded sends_quietly_def]]) (auto split: res.splits)
  show ?thesis
    unfolding assoc
    by (rule does_bind [OF first [unfolded sends_quietly_def], where Q = "\<lambda>_. ?Q"])
      (use rest in \<open>auto split: res.splits\<close>)
qed


section \<open>The sizes of the segments\<close>

text \<open>The writes to a socket, one by one.\<close>

definition chunks :: "sock \<Rightarrow> history \<Rightarrow> bytes list" where
  "chunks s es = List.map_filter (\<lambda>e. case e of Wrote s' bs \<Rightarrow> if s' = s then Some bs else None | _ \<Rightarrow> None) es"

lemma chunks_simps [simp]:
  "chunks s [] = []" "chunks s (es @ es') = chunks s es @ chunks s es'"
  "chunks s (Wrote s' bs # es) = (if s' = s then bs # chunks s es else chunks s es)"
  "chunks s (Drew lo hi v # es) = chunks s es" "chunks s (Flushed s1 # es) = chunks s es"
  by (simp_all add: chunks_def List.map_filter_def)

text \<open>At most 256 bytes each, none empty, and at least 80 in each but the last.\<close>

definition segments_ok :: "bytes list \<Rightarrow> bool" where
  "segments_ok cs \<longleftrightarrow> list_all (\<lambda>c. 0 < length c \<and> length c \<le> 256) cs \<and>
     list_all (\<lambda>c. 80 \<le> length c) (butlast cs)"

lemma segments_ok_Cons:
  "segments_ok cs \<Longrightarrow> 0 < length c \<Longrightarrow> length c \<le> 256 \<Longrightarrow> (cs \<noteq> [] \<Longrightarrow> 80 \<le> length c) \<Longrightarrow> segments_ok (c # cs)"
  by (auto simp: segments_ok_def)

definition segmented_as :: "sock \<Rightarrow> bytes \<Rightarrow> history \<Rightarrow> unit res \<Rightarrow> bool" where
  "segmented_as s data es r \<longleftrightarrow>
     (case r of Ok _ \<Rightarrow> concat (chunks s es) = data \<and> segments_ok (chunks s es) | _ \<Rightarrow> True)"

lemma split_loop_segments: "does (segmented_as s (drop offset data)) (split_loop env s data offset)"
proof (induction "length data - offset" arbitrary: offset rule: less_induct)
  case less
  show ?case
  proof (cases "offset < length data")
    case True
    have step: "does (segmented_as s (drop offset data)) (bindI (tcp_write_all env s (take n (drop offset data))) (\<lambda>_.
        split_loop env s data (offset + min n (length data - offset))))" if n: "80 \<le> n" "n \<le> 256" for n
    proof -
      let ?o = "offset + min n (length data - offset)" and ?c = "take n (drop offset data)"
      have IH: "does (segmented_as s (drop ?o data)) (split_loop env s data ?o)"
        using n True by (intro less) auto
      have "drop ?o data = drop n (drop offset data)"
        by (cases "n \<le> length data - offset") (simp_all add: min_def add.commute)
      then have d: "?c @ drop ?o data = drop offset data" by (simp only: append_take_drop_id)
      show ?thesis
      proof (rule does_bind [OF does_write_all [of s ?c env] IH])
        fix es x es' r
        assume "case (Ok x :: unit res) of Ok _ \<Rightarrow> es = [Wrote s ?c]
            | Err _ \<Rightarrow> \<exists>k. es = [Wrote s (take k ?c), Failed s] | Panicked \<Rightarrow> False"
          and r: "segmented_as s (drop ?o data) es' r"
        then have es: "es = [Wrote s ?c]" by simp
        show "segmented_as s (drop offset data) (es @ es') r"
        proof (cases r)
          case (Ok y)
          with r have c: "concat (chunks s es') = drop ?o data" "segments_ok (chunks s es')"
            by (simp_all add: segmented_as_def)
          have "80 \<le> length ?c" if "chunks s es' \<noteq> []"
          proof -
            from that c have "drop ?o data \<noteq> []"
              by (cases "chunks s es'") (auto simp: segments_ok_def)
            then show ?thesis using n by (auto simp: min_def split: if_splits)
          qed
          moreover have "0 < length ?c" "length ?c \<le> 256" using n True by auto
          ultimately have "segments_ok (?c # chunks s es')"
            using c(2) by (intro segments_ok_Cons)
          with c(1) d Ok es show ?thesis by (simp add: segmented_as_def)
        qed (simp_all add: segmented_as_def)
      qed (simp_all add: segmented_as_def)
    qed
    show ?thesis
      unfolding split_loop_step [OF True]
      by (rule does_bind [OF does_random, where Q = "\<lambda>_. segmented_as s (drop offset data)"])
        (use step in \<open>auto simp: segmented_as_def split: res.splits\<close>)
  next
    case False
    then have "split_loop env s data offset = okI ()"
      by (intro ext) (subst split_loop.simps, simp)
    with False show ?thesis by (simp add: does_ok segmented_as_def segments_ok_def)
  qed
qed


section \<open>Properties\<close>

text \<open>
  C12: \<open>write_all_vectored\<close> returns for every environment and every list of slices, empty ones
  and more than four included, and delivers exactly their concatenation, however the kernel cuts
  the vectored writes; a write of zero bytes is an error and not an endless loop.
\<close>

theorem write_all_vectored_exact:
  "delivered s (concat slices) h (write_all_vectored env s slices h)"
  by (rule vectored.contract)

text \<open>
  C22: \<open>split_and_write\<close> returns for every environment, never panics (its slices are in range for
  every random segment size), and delivers exactly the buffer, in order, without loss.
\<close>

theorem split_and_write_exact:
  "delivered s data h (split_and_write env data s h)"
  by (rule segmented.contract)

text \<open>
  C23: The segments of \<open>split_and_write\<close>: on success the single writes concatenate to the buffer, each has at
  most 256 bytes and is not empty, and all but the last have at least 80, whatever the random numbers.
\<close>

theorem split_segments_bounded:
  "case split_and_write env data s h of (r, h') \<Rightarrow>
     (case r of
        Ok _ \<Rightarrow> \<exists>es. h' = h @ es \<and> concat (chunks s es) = data \<and> segments_ok (chunks s es)
      | Err _ \<Rightarrow> True | Panicked \<Rightarrow> False)"
proof -
  have "does (\<lambda>es r. segmented_as s data es r \<and> r \<noteq> Panicked) (split_and_write env data s)"
  proof (cases "data = []")
    case True
    then show ?thesis by (simp add: split_and_write_def does_ok segmented_as_def segments_ok_def)
  next
    case False
    have a: "does (\<lambda>es r. segmented_as s data es r \<and> r \<noteq> Panicked) (split_loop env s data 0)"
      using does_conj [OF split_loop_segments [of s 0 data env] split_loop_delivers [of s 0 data env, unfolded delivers_def]]
      by (rule does_mono) (auto split: res.splits)
    show ?thesis
      using False unfolding split_and_write_def tcp_flush_def [abs_def]
      by (simp, intro does_bind [OF a does_answered])
        (auto simp: segmented_as_def split: res.splits)
  qed
  from doesD [OF this, of h] obtain es r where
    "split_and_write env data s h = (r, h @ es)" "segmented_as s data es r" "r \<noteq> Panicked"
    by blast
  then show ?thesis
    by (cases r) (auto simp: segmented_as_def)
qed

text \<open>
  \<open>transmit_tls_records\<close> delivers the first record, the second record and the trailing data,
  in this order and without loss.
\<close>

lemma transmit_delivers_records:
  "delivered s (record_bytes rec1 @ (case rec2 of None \<Rightarrow> [] | Some r \<Rightarrow> record_bytes r) @ trailing) h
     (transmit_tls_records env s rec1 rec2 trailing is_meta h)"
  using records.contract [of s "(rec1, rec2, trailing, is_meta)" h env] by simp

text \<open>
  C13: The pause between the two records: when the transmission succeeds, the first record has
  been written and nothing else when the pause begins, everything else is written after it, and
  the pause is a single sleep of one to five milliseconds, or no sleep at all for a Meta domain.
\<close>

theorem transmit_pauses_between_records:
  "case transmit_tls_records env s rec1 rec2 trailing is_meta h of (r, h') \<Rightarrow>
     (case r of
        Ok _ \<Rightarrow> \<exists>es1 t es2. h' = h @ es1 @ pause is_meta t @ es2 \<and> 1 \<le> t \<and> t \<le> 5 \<and>
          quiet es1 \<and> quiet es2 \<and> sent s es1 = record_bytes rec1 \<and>
          sent s es2 = (case rec2 of None \<Rightarrow> [] | Some r \<Rightarrow> record_bytes r) @ trailing
      | Err _ \<Rightarrow> True | Panicked \<Rightarrow> False)"
proof -
  obtain es r where o: "transmit_tls_records env s rec1 rec2 trailing is_meta h = (r, h @ es)"
    "case r of
      Ok _ \<Rightarrow> \<exists>es1 t es2. es = es1 @ pause is_meta t @ es2 \<and> 1 \<le> t \<and> t \<le> 5 \<and> quiet es1 \<and> quiet es2 \<and>
        sent s es1 = record_bytes rec1 \<and>
        sent s es2 = (case rec2 of None \<Rightarrow> [] | Some r \<Rightarrow> record_bytes r) @ trailing
    | Err _ \<Rightarrow> True | Panicked \<Rightarrow> False"
    using doesD [OF transmit_order] by blast
  then show ?thesis by (cases r) simp_all
qed

text \<open>
  The pause \<open>random_delay\<close> draws a number of its inclusive range and sleeps that many
  milliseconds; it panics exactly when the range is empty.
\<close>

lemma random_delay_in_range:
  "case random_delay env lo hi h of
     (Ok _, h') \<Rightarrow> lo \<le> hi \<and> (\<exists>t. lo \<le> t \<and> t \<le> hi \<and> h' = h @ [Drew lo hi t, Slept t])
   | (Err _, _) \<Rightarrow> False
   | (Panicked, h') \<Rightarrow> hi < lo \<and> h' = h"
proof (cases "lo \<le> hi")
  case True
  then obtain v where "random_range env lo hi h = (Ok v, h @ [Drew lo hi v])" "lo \<le> v" "v \<le> hi"
    using doesD [OF does_random [OF True], of env h] by auto
  with True show ?thesis
    by (simp add: random_delay_def bindI_def sleep_ms_def)
next
  case False
  then show ?thesis by (simp add: random_delay_def bindI_def random_range_def)
qed

end
