(* ===== verification/Dns.thy ===== *)
theory Dns
  imports Ip_Addr
begin

text \<open>
  \<^verbatim>\<open>src/dns/resolver.rs\<close>, the pure part: the configured server address, building the query and
  parsing the response. (Sending them is in the theory \<open>Dns_Client\<close>.) The specification is a DNS
  message as a structure, \<open>dns_message\<close>, with \<open>encode_message\<close> its wire format: the query built
  is the encoding of a standard query, and the parser returns the first A record of every
  well-formed response. All reads and writes that could panic are explicit.
\<close>

section \<open>Constants and the resolver\<close>

definition DEFAULT_DNS_ADDR :: rstr where
  "DEFAULT_DNS_ADDR = lit ''127.0.0.1:53''"

definition DNS_HEADER_SIZE :: nat where
  "DNS_HEADER_SIZE = 12"

definition DNS_RR_HEADER_MIN_SIZE :: nat where
  "DNS_RR_HEADER_MIN_SIZE = 10"

definition DNS_TYPE_A :: u16 where
  "DNS_TYPE_A = 1"

definition DNS_TYPE_SVCB :: u16 where
  "DNS_TYPE_SVCB = 64"

definition DNS_TYPE_HTTPS :: u16 where
  "DNS_TYPE_HTTPS = 65"

definition DNS_CLASS_IN :: u16 where
  "DNS_CLASS_IN = 1"

definition DNS_FLAGS_STANDARD_QUERY :: u16 where
  "DNS_FLAGS_STANDARD_QUERY = 0x0100"

lemmas dns_consts =
  DNS_HEADER_SIZE_def DNS_RR_HEADER_MIN_SIZE_def DNS_TYPE_A_def DNS_TYPE_SVCB_def
  DNS_TYPE_HTTPS_def DNS_CLASS_IN_def DNS_FLAGS_STANDARD_QUERY_def

record dns_resolver =
  dns_addr :: rstr

definition new_resolver :: "rstr \<Rightarrow> dns_resolver" where
  "new_resolver addr =
     \<lparr>dns_addr =
        (if addr = [] then DEFAULT_DNS_ADDR
         else if \<not> contains_char addr 58 then addr @ lit '':53''
         else addr)\<rparr>"


section \<open>Building a query\<close>

text \<open>The loop over the labels: a label is written when it is not empty and fits.\<close>

fun write_labels :: "bytes \<Rightarrow> nat \<Rightarrow> rstr list \<Rightarrow> (bytes \<times> nat) rust" where
  "write_labels query pos [] = Val (query, pos)"
| "write_labels query pos (part # parts) =
     (let bs = utf8 part in
      if bs \<noteq> [] \<and> pos + 1 + length bs < 120 then
        bindR (set_idx query pos (word_of_nat (length bs))) (\<lambda>query.
        let pos = pos + 1 in
        bindR (copy_into query pos (pos + length bs) bs) (\<lambda>query.
        write_labels query (pos + length bs) parts))
      else write_labels query pos parts)"

definition build_dns_query :: "rstr \<Rightarrow> (bytes \<times> nat) rust" where
  "build_dns_query domain =
     (let query = replicate 128 (0 :: byte) in
      if length (utf8 domain) > 100 then Val (query, 0) else
      bindR (copy_into query 0 2 (to_be_bytes 1)) (\<lambda>query.
      bindR (copy_into query 2 4 (to_be_bytes DNS_FLAGS_STANDARD_QUERY)) (\<lambda>query.
      bindR (copy_into query 4 6 (to_be_bytes 1)) (\<lambda>query.
      bindR (copy_into query 6 8 (to_be_bytes 0)) (\<lambda>query.
      bindR (copy_into query 8 10 (to_be_bytes 0)) (\<lambda>query.
      bindR (copy_into query 10 12 (to_be_bytes 0)) (\<lambda>query.
      bindR (write_labels query DNS_HEADER_SIZE (split_char 46 domain)) (\<lambda>(query, pos).
      bindR (set_idx query pos 0) (\<lambda>query.
      let pos = pos + 1 in
      bindR (copy_into query pos (pos + 2) (to_be_bytes DNS_TYPE_A)) (\<lambda>query.
      let pos = pos + 2 in
      bindR (copy_into query pos (pos + 2) (to_be_bytes DNS_CLASS_IN)) (\<lambda>query.
      Val (query, pos + 2))))))))))))"


section \<open>Parsing a response\<close>

function skip_dns_name :: "bytes \<Rightarrow> nat \<Rightarrow> nat option rust" where
  "skip_dns_name data pos =
     (if pos < length data then
        bindR (idx data pos) (\<lambda>len.
        if len = 0 then Val (Some (pos + 1))
        else if and len 0xC0 = 0xC0 then Val (Some (pos + 2))
        else skip_dns_name data (pos + (1 + unat len)))
      else Val None)"
  by pat_completeness auto
termination
  by (relation "measure (\<lambda>(data, pos). length data - pos)") auto

declare skip_dns_name.simps [simp del]

fun skip_questions :: "bytes \<Rightarrow> nat \<Rightarrow> nat \<Rightarrow> nat option rust" where
  "skip_questions data 0 pos = Val (Some pos)"
| "skip_questions data (Suc n) pos =
     bindO (skip_dns_name data pos) (\<lambda>next_pos. skip_questions data n (next_pos + 4))"

fun parse_answers :: "bytes \<Rightarrow> nat \<Rightarrow> nat \<Rightarrow> ip_addr option rust" where
  "parse_answers data 0 pos = Val None"
| "parse_answers data (Suc n) pos =
     bindO (skip_dns_name data pos) (\<lambda>next_pos.
     let pos = next_pos in
     if pos + DNS_RR_HEADER_MIN_SIZE > length data then Val None else
     bindR (idx data pos) (\<lambda>t0. bindR (idx data (pos + 1)) (\<lambda>t1.
     bindR (idx data (pos + 8)) (\<lambda>l0. bindR (idx data (pos + 9)) (\<lambda>l1.
     let rtype = from_be_bytes t0 t1; rdlen = unat (from_be_bytes l0 l1);
         pos = pos + DNS_RR_HEADER_MIN_SIZE in
     if pos + rdlen > length data then Val None
     else if rtype = DNS_TYPE_HTTPS \<or> rtype = DNS_TYPE_SVCB then parse_answers data n (pos + rdlen)
     else if rtype = DNS_TYPE_A \<and> rdlen = 4 then
       bindR (idx data pos) (\<lambda>a. bindR (idx data (pos + 1)) (\<lambda>b.
       bindR (idx data (pos + 2)) (\<lambda>c. bindR (idx data (pos + 3)) (\<lambda>d.
       Val (Some (V4 a b c d))))))
     else parse_answers data n (pos + rdlen))))))"

definition parse_dns_response :: "bytes \<Rightarrow> ip_addr option rust" where
  "parse_dns_response data =
     (if length data < DNS_HEADER_SIZE then Val None else
      bindR (idx data 3) (\<lambda>b3.
      let rcode = and b3 0x0F in
      if rcode \<noteq> 0 then Val None else
      bindR (idx data 4) (\<lambda>q0. bindR (idx data 5) (\<lambda>q1.
      bindR (idx data 6) (\<lambda>a0. bindR (idx data 7) (\<lambda>a1.
      let qdcount = unat (from_be_bytes q0 q1); ancount = unat (from_be_bytes a0 a1) in
      if ancount = 0 then Val None else
      bindO (skip_questions data qdcount DNS_HEADER_SIZE) (\<lambda>pos.
      parse_answers data ancount pos)))))))"


section \<open>No read is out of range\<close>

lemma safe_skip_dns_name [panic_free]: "safe (skip_dns_name data pos)"
proof (induction data pos rule: skip_dns_name.induct)
  case (1 data pos)
  show ?case
    by (subst skip_dns_name.simps) (intro panic_free "1.IH"; assumption)
qed

lemma safe_skip_questions [panic_free]: "safe (skip_questions data n pos)"
  by (induction n arbitrary: pos) (auto intro!: panic_free)

lemma safe_parse_answers [panic_free]: "safe (parse_answers data n pos)"
proof (induction n arbitrary: pos)
  case (Suc n)
  show ?case
    by (auto intro!: panic_free Suc.IH simp: Let_def DNS_RR_HEADER_MIN_SIZE_def)
qed (simp add: panic_free)

lemma safe_parse_dns_response [panic_free]: "safe (parse_dns_response data)"
  unfolding parse_dns_response_def Let_def
  by (intro panic_free) (auto simp: DNS_HEADER_SIZE_def)

text \<open>
  A name read by \<open>skip_dns_name\<close> ends at most one byte behind the buffer (a pointer whose second
  byte is missing), so no position the parser computes exceeds the buffer by more than a field.
\<close>

lemma skip_dns_name_bound:
  "skip_dns_name data pos = Val (Some p) \<Longrightarrow> pos < p \<and> p \<le> length data + 1"
proof (induction data pos rule: skip_dns_name.induct)
  case (1 data pos)
  show ?case
  proof (cases "pos < length data")
    case True
    let ?l = "data ! pos"
    show ?thesis
    proof (cases "?l = 0 \<or> and ?l 0xC0 = 0xC0")
      case True
      with \<open>pos < length data\<close> "1.prems" show ?thesis
        by (subst (asm) skip_dns_name.simps) (auto split: if_splits)
    next
      case False
      with True "1.prems" have "skip_dns_name data (pos + (1 + unat ?l)) = Val (Some p)"
        by (subst (asm) skip_dns_name.simps) simp
      with "1.IH" [of ?l] True False show ?thesis by simp
    qed
  next
    case False
    with "1.prems" show ?thesis by (subst (asm) skip_dns_name.simps) simp
  qed
qed


section \<open>The specification: DNS messages\<close>

text \<open>
  A name is a list of labels, ended by the root or by a compression pointer.
\<close>

datatype name_end = Root | Pointer byte byte

type_synonym dns_name = "bytes list \<times> name_end"

definition encode_labels :: "bytes list \<Rightarrow> bytes" where
  "encode_labels ls = concat (map (\<lambda>l. word_of_nat (length l) # l) ls)"

definition encode_name :: "dns_name \<Rightarrow> bytes" where
  "encode_name n =
     encode_labels (fst n) @ (case snd n of Root \<Rightarrow> [0] | Pointer hi lo \<Rightarrow> [hi, lo])"

definition wf_name :: "dns_name \<Rightarrow> bool" where
  "wf_name n \<longleftrightarrow>
     list_all (\<lambda>l. l \<noteq> [] \<and> length l < 128) (fst n) \<and>
     (case snd n of Root \<Rightarrow> True | Pointer hi lo \<Rightarrow> and hi 0xC0 = 0xC0)"

record rr =
  rr_name :: dns_name
  rr_type :: u16
  rr_class :: u16
  rr_ttl :: bytes
  rr_data :: bytes

record dns_message =
  m_id :: bytes
  m_flags :: bytes
  m_questions :: "(dns_name \<times> bytes) list"
  m_answers :: "rr list"
  m_counts :: bytes
  m_tail :: bytes

definition encode_question :: "dns_name \<times> bytes \<Rightarrow> bytes" where
  "encode_question q = encode_name (fst q) @ snd q"

definition encode_rr :: "rr \<Rightarrow> bytes" where
  "encode_rr r =
     encode_name (rr_name r) @ to_be_bytes (rr_type r) @ to_be_bytes (rr_class r) @ rr_ttl r @
     to_be_bytes (word_of_nat (length (rr_data r))) @ rr_data r"

definition encode_header :: "dns_message \<Rightarrow> bytes" where
  "encode_header m =
     m_id m @ m_flags m @ to_be_bytes (word_of_nat (length (m_questions m))) @
     to_be_bytes (word_of_nat (length (m_answers m))) @ m_counts m"

definition encode_message :: "dns_message \<Rightarrow> bytes" where
  "encode_message m =
     encode_header m @ concat (map encode_question (m_questions m)) @
     concat (map encode_rr (m_answers m)) @ m_tail m"

definition wf_rr :: "rr \<Rightarrow> bool" where
  "wf_rr r \<longleftrightarrow> wf_name (rr_name r) \<and> length (rr_ttl r) = 4 \<and> length (rr_data r) < 65536"

definition wf_message :: "dns_message \<Rightarrow> bool" where
  "wf_message m \<longleftrightarrow>
     length (m_id m) = 2 \<and> length (m_flags m) = 2 \<and> length (m_counts m) = 4 \<and>
     length (m_questions m) < 65536 \<and> length (m_answers m) < 65536 \<and>
     list_all (\<lambda>q. wf_name (fst q) \<and> length (snd q) = 4) (m_questions m) \<and>
     list_all wf_rr (m_answers m)"

text \<open>The address the caller wants: the one of the first A record with a four-byte address.\<close>

definition is_address :: "rr \<Rightarrow> bool" where
  "is_address r \<longleftrightarrow> rr_type r = DNS_TYPE_A \<and> length (rr_data r) = 4"

definition rr_address :: "rr \<Rightarrow> ip_addr" where
  "rr_address r = V4 (rr_data r ! 0) (rr_data r ! 1) (rr_data r ! 2) (rr_data r ! 3)"

definition first_address :: "rr list \<Rightarrow> ip_addr option" where
  "first_address rs = map_option rr_address (find is_address rs)"


section \<open>The parser on encoded messages\<close>

lemma bit_C0: "bit (0xC0 :: byte) 7"
  by (simp add: bit_iff_odd)

lemma low_byte_no_pointer: "unat b < 128 \<Longrightarrow> and (b :: byte) 0xC0 \<noteq> 0xC0"
proof
  assume b: "unat b < 128" and e: "and b 0xC0 = 0xC0"
  have "bit b 7"
    using arg_cong [OF e, of "\<lambda>w. bit w 7"] bit_C0 by (simp add: bit_and_iff)
  then have "bit (unat b) 7"
    by (simp add: bit_unsigned_iff)
  with b show False by (simp add: bit_iff_odd)
qed

lemma encode_labels_Nil [simp]: "encode_labels [] = []"
  by (simp add: encode_labels_def)

lemma encode_labels_Cons [simp]: "encode_labels (l # ls) = word_of_nat (length l) # l @ encode_labels ls"
  by (simp add: encode_labels_def)

lemma skip_labels:
  assumes "drop pos data = encode_labels ls @ r" and "list_all (\<lambda>l. l \<noteq> [] \<and> length l < 128) ls"
  shows "skip_dns_name data pos = skip_dns_name data (pos + length (encode_labels ls))"
  using assms
proof (induction ls arbitrary: pos)
  case (Cons l ls)
  let ?b = "word_of_nat (length l) :: byte"
  from Cons.prems have d: "drop pos data = ?b # l @ encode_labels ls @ r" and l: "l \<noteq> []" "length l < 128"
    by simp_all
  note n = drop_Cons_nth [OF d]
  have u: "unat ?b = length l" using l(2) by (simp add: be_simps)
  have "?b \<noteq> 0"
    using l(1) u by (metis length_0_conv unsigned_0)
  moreover have "and ?b 0xC0 \<noteq> 0xC0"
    using l(2) u by (intro low_byte_no_pointer) simp
  ultimately have "skip_dns_name data pos = skip_dns_name data (Suc pos + length l)"
    using n u by (subst skip_dns_name.simps) simp
  also have "drop (Suc pos + length l) data = encode_labels ls @ r"
    using n by (intro drop_append_ge) simp
  then have "skip_dns_name data (Suc pos + length l) =
      skip_dns_name data (Suc pos + length l + length (encode_labels ls))"
    using Cons.prems(2) by (intro Cons.IH) simp_all
  finally show ?case by (simp add: add.assoc)
qed simp

lemma skip_name:
  assumes "drop pos data = encode_name n @ r" and "wf_name n"
  shows "skip_dns_name data pos = Val (Some (pos + length (encode_name n)))"
    and "drop (pos + length (encode_name n)) data = r"
proof -
  let ?e = "case snd n of Root \<Rightarrow> [0] | Pointer hi lo \<Rightarrow> [hi, lo]"
  let ?p = "pos + length (encode_labels (fst n))"
  have d: "drop pos data = encode_labels (fst n) @ ?e @ r"
    using assms(1) by (simp add: encode_name_def)
  have "skip_dns_name data pos = skip_dns_name data ?p"
    using skip_labels [OF d] assms(2) by (simp add: wf_name_def)
  moreover have e: "drop ?p data = ?e @ r"
    by (rule drop_append_ge [OF d])
  have "skip_dns_name data ?p = Val (Some (?p + length ?e))"
  proof (cases "snd n")
    case Root
    with e drop_Cons_nth [of ?p data 0 r] show ?thesis
      by (subst skip_dns_name.simps) simp
  next
    case (Pointer hi lo)
    with assms(2) have "and hi 0xC0 = 0xC0" by (simp add: wf_name_def)
    then have "hi \<noteq> 0" by auto
    with \<open>and hi 0xC0 = 0xC0\<close> Pointer e drop_Cons_nth [of ?p data hi "lo # r"] show ?thesis
      by (subst skip_dns_name.simps) simp
  qed
  ultimately show "skip_dns_name data pos = Val (Some (pos + length (encode_name n)))"
    by (simp add: encode_name_def add.assoc)
  show "drop (pos + length (encode_name n)) data = r"
    by (rule drop_append_ge [OF assms(1)])
qed

lemma skip_questions_encoded:
  assumes "drop pos data = concat (map encode_question qs) @ r"
    and "list_all (\<lambda>q. wf_name (fst q) \<and> length (snd q) = 4) qs"
  shows "\<exists>p. skip_questions data (length qs) pos = Val (Some p) \<and> drop p data = r"
  using assms
proof (induction qs arbitrary: pos)
  case (Cons q qs)
  from Cons.prems have d: "drop pos data = encode_name (fst q) @ (snd q @ concat (map encode_question qs) @ r)"
    by (simp add: encode_question_def [of q])
  from Cons.prems have w: "wf_name (fst q)" "length (snd q) = 4"
    by simp_all
  note s = skip_name [OF d w(1)]
  have "drop (pos + length (encode_name (fst q)) + 4) data = concat (map encode_question qs) @ r"
    using drop_append_ge [OF s(2)] w(2) by simp
  from Cons.IH [OF this] Cons.prems(2) s(1) show ?case by simp
qed simp

text \<open>One record of the answer section: taken, or stepped over.\<close>

lemma drop_nth: "drop p data = xs @ r \<Longrightarrow> i < length xs \<Longrightarrow> p + i < length data \<and> data ! (p + i) = xs ! i"
proof -
  assume d: "drop p data = xs @ r" and i: "i < length xs"
  then have "length xs \<le> length data - p" and "drop p data \<noteq> []"
    by (metis le_add1 length_append length_drop) (use d i in auto)
  with i have l: "p + i < length data"
    by simp
  moreover have "data ! (p + i) = drop p data ! i"
    using l by simp
  ultimately show ?thesis
    using d i by (simp add: nth_append)
qed

lemma drop_length_le: "drop p data = xs @ r \<Longrightarrow> xs \<noteq> [] \<Longrightarrow> p + length xs \<le> length data"
  using drop_nth [of p data xs r "length xs - 1"] by (cases xs) auto

lemma parse_answers_step:
  assumes d: "drop pos data = encode_rr r @ rest" and w: "wf_rr r"
  shows "parse_answers data (Suc n) pos =
    (if is_address r then Val (Some (rr_address r))
     else parse_answers data n (pos + length (encode_rr r)))"
proof -
  let ?p = "pos + length (encode_name (rr_name r))" and ?n = "length (rr_data r)"
  let ?h = "to_be_bytes (rr_type r) @ to_be_bytes (rr_class r) @ rr_ttl r @ to_be_bytes (word_of_nat ?n)"
  from w have wn: "wf_name (rr_name r)" and wt: "length (rr_ttl r) = 4" and wd: "?n < 65536"
    by (simp_all add: wf_rr_def)
  have d0: "drop pos data = encode_name (rr_name r) @ (?h @ rr_data r @ rest)"
    using d by (simp add: encode_rr_def)
  note s = skip_name [OF d0 wn]
  obtain t0 t1 t2 t3 where ttl: "rr_ttl r = [t0, t1, t2, t3]"
  proof -
    have "length (rr_ttl r) = Suc (Suc (Suc (Suc 0)))" using wt by simp
    then show thesis using that unfolding length_Suc_conv by auto
  qed
  have lh: "length ?h = 10" by (simp add: wt)
  have h: "?p + i < length data \<and> data ! (?p + i) = ?h ! i" if "i < 10" for i
    using drop_nth [OF s(2), of i] that lh by simp
  have t: "from_be_bytes (data ! ?p) (data ! (?p + 1)) = rr_type r"
    using h [of 0] h [of 1] by (simp add: to_be_bytes_def be_simps)
  have l: "unat (from_be_bytes (data ! (?p + 8)) (data ! (?p + 9))) = ?n"
    using h [of 8] h [of 9] wd by (simp add: to_be_bytes_def be_simps ttl)
  have s3: "drop (?p + 10) data = rr_data r @ rest"
    using drop_append_ge [OF s(2)] unfolding lh .
  have p9: "?p + 9 < length data" using h [of 9] by simp
  have pd: "?p + 10 + ?n \<le> length data"
    using p9 drop_length_le [OF s3] by (cases "rr_data r") auto
  have nt: "rr_type r \<noteq> DNS_TYPE_A" if "rr_type r = DNS_TYPE_HTTPS \<or> rr_type r = DNS_TYPE_SVCB"
    using that by (auto simp: dns_consts)
  have b: "data ! (?p + 10 + i) = rr_data r ! i" if "?n = 4" "i < 4" for i
    using drop_nth [OF s3] that by simp
  have fields: "parse_answers data (Suc n) pos =
    (if rr_type r = DNS_TYPE_HTTPS \<or> rr_type r = DNS_TYPE_SVCB then parse_answers data n (?p + 10 + ?n)
     else if rr_type r = DNS_TYPE_A \<and> ?n = 4 then
       bindR (idx data (?p + 10)) (\<lambda>a. bindR (idx data (?p + 10 + 1)) (\<lambda>b.
       bindR (idx data (?p + 10 + 2)) (\<lambda>c. bindR (idx data (?p + 10 + 3)) (\<lambda>d.
       Val (Some (V4 a b c d))))))
     else parse_answers data n (?p + 10 + ?n))"
    using p9 pd by (simp add: s(1) Let_def DNS_RR_HEADER_MIN_SIZE_def t [simplified] l)
  have "length (encode_rr r) = length (encode_name (rr_name r)) + 10 + ?n"
    by (simp add: encode_rr_def wt)
  then show ?thesis
    using fields nt pd b [of 0] b [of 1] b [of 2] b [of 3]
    by (auto simp: is_address_def rr_address_def ac_simps)
qed

lemma parse_answers_encoded:
  assumes "drop pos data = concat (map encode_rr rs) @ r" and "list_all wf_rr rs"
  shows "parse_answers data (length rs) pos = Val (first_address rs)"
  using assms
proof (induction rs arbitrary: pos)
  case (Cons x rs)
  from Cons.prems have d: "drop pos data = encode_rr x @ (concat (map encode_rr rs) @ r)"
    and w: "wf_rr x" "list_all wf_rr rs"
    by simp_all
  from Cons.IH [OF drop_append_ge [OF d] w(2)] show ?case
    by (simp del: parse_answers.simps add: parse_answers_step [OF d w(1)] first_address_def)
qed (simp add: first_address_def)

lemma header_fields:
  assumes "wf_message m"
  obtains i0 i1 f0 f1 c0 c1 c2 c3 where "m_id m = [i0, i1]" "m_flags m = [f0, f1]"
    "m_counts m = [c0, c1, c2, c3]"
proof -
  have "length (m_id m) = Suc (Suc 0)" "length (m_flags m) = Suc (Suc 0)"
    "length (m_counts m) = Suc (Suc (Suc (Suc 0)))"
    using assms by (simp_all add: wf_message_def)
  then show thesis
    using that unfolding length_Suc_conv by auto
qed


lemma parse_encoded_message:
  assumes w: "wf_message m"
  shows "parse_dns_response (encode_message m) =
    Val (if and (m_flags m ! 1) 0x0F \<noteq> 0 then None else first_address (m_answers m))"
proof -
  let ?data = "encode_message m" and ?q = "length (m_questions m)" and ?a = "length (m_answers m)"
  obtain i0 i1 f0 f1 c0 c1 c2 c3 where f: "m_id m = [i0, i1]" "m_flags m = [f0, f1]"
    "m_counts m = [c0, c1, c2, c3]"
    using header_fields [OF w] by metis
  have len: "?q < 65536" "?a < 65536"
    using w by (simp_all add: wf_message_def)
  let ?h = "encode_header m"
  have lh: "length ?h = 12"
    by (simp add: encode_header_def f)
  have d: "drop 0 ?data = ?h @ (concat (map encode_question (m_questions m)) @
      (concat (map encode_rr (m_answers m)) @ m_tail m))"
    by (simp add: encode_message_def)
  have h: "i < length ?data \<and> ?data ! i = ?h ! i" if "i < 12" for i
    using drop_nth [OF d, of i] that lh by simp
  have d12: "drop DNS_HEADER_SIZE ?data =
      concat (map encode_question (m_questions m)) @ (concat (map encode_rr (m_answers m)) @ m_tail m)"
    using drop_append_ge [OF d] lh by (simp add: DNS_HEADER_SIZE_def)
  obtain p where p: "skip_questions ?data ?q DNS_HEADER_SIZE = Val (Some p)"
      "drop p ?data = concat (map encode_rr (m_answers m)) @ m_tail m"
    using skip_questions_encoded [OF d12] w by (auto simp: wf_message_def)
  have ans: "parse_answers ?data ?a p = Val (first_address (m_answers m))"
    using parse_answers_encoded [OF p(2)] w by (simp add: wf_message_def)
  have f3: "?data ! 3 = f1"
    using h [of 3] by (simp add: encode_header_def f)
  have qd: "unat (from_be_bytes (?data ! 4) (?data ! 5)) = ?q"
    using h [of 4] h [of 5] len by (simp add: encode_header_def f to_be_bytes_def be_simps)
  have an: "unat (from_be_bytes (?data ! 6) (?data ! 7)) = ?a"
    using h [of 6] h [of 7] len by (simp add: encode_header_def f to_be_bytes_def be_simps)
  have "12 \<le> length ?data"
    using h [of 11] by simp
  then show ?thesis
    using p(1) ans f3 qd an h [of 3] h [of 4] h [of 5] h [of 6] h [of 7]
    by (auto simp: parse_dns_response_def DNS_HEADER_SIZE_def f Let_def first_address_def)
qed


section \<open>What the parser ignores\<close>

text \<open>The parser only looks at the bytes after the transaction id.\<close>

definition same_from :: "nat \<Rightarrow> 'a list \<Rightarrow> 'a list \<Rightarrow> bool" where
  "same_from k xs ys \<longleftrightarrow> length xs = length ys \<and> (\<forall>i. k \<le> i \<longrightarrow> i < length xs \<longrightarrow> xs ! i = ys ! i)"

lemma same_from_idx: "same_from k xs ys \<Longrightarrow> k \<le> i \<Longrightarrow> idx xs i = idx ys i"
  by (simp add: same_from_def idx_def)

lemma skip_dns_name_same:
  "same_from k xs ys \<Longrightarrow> k \<le> pos \<Longrightarrow> skip_dns_name xs pos = skip_dns_name ys pos"
proof (induction xs pos rule: skip_dns_name.induct)
  case (1 xs pos)
  have "idx xs pos = idx ys pos" "length xs = length ys"
    using "1.prems" by (auto simp: same_from_idx same_from_def)
  moreover have "skip_dns_name xs (pos + (1 + unat l)) = skip_dns_name ys (pos + (1 + unat l))"
    if "pos < length xs" "l = xs ! pos" "l \<noteq> 0" "and l 0xC0 \<noteq> 0xC0" for l
    using "1.IH" [of l] that "1.prems" by simp
  ultimately show ?case
    by (subst (1 2) skip_dns_name.simps) (auto simp: idx_def)
qed

lemma skip_questions_same:
  "same_from k xs ys \<Longrightarrow> k \<le> pos \<Longrightarrow> skip_questions xs n pos = skip_questions ys n pos"
proof (induction n arbitrary: pos)
  case (Suc n)
  have "skip_questions xs n (p + 4) = skip_questions ys n (p + 4)"
    if "skip_dns_name ys pos = Val (Some p)" for p
    using Suc.IH [of "p + 4"] Suc.prems skip_dns_name_bound [OF that] by simp
  then show ?case
    using skip_dns_name_same [OF Suc.prems] by (auto intro!: bindO_cong)
qed simp

lemma skip_questions_ge: "skip_questions data n pos = Val (Some p) \<Longrightarrow> pos \<le> p"
proof (induction n arbitrary: pos)
  case (Suc n)
  then show ?case
    by (force simp: rust_conv dest!: skip_dns_name_bound Suc.IH)
qed simp

lemma parse_answers_same:
  "same_from k xs ys \<Longrightarrow> k \<le> pos \<Longrightarrow> parse_answers xs n pos = parse_answers ys n pos"
proof (induction n arbitrary: pos)
  case (Suc n)
  have i: "idx xs p = idx ys p" if "k \<le> p" for p
    using Suc.prems(1) that by (rule same_from_idx)
  have l: "length xs = length ys"
    using Suc.prems(1) by (simp add: same_from_def)
  show ?case
    unfolding parse_answers.simps Let_def skip_dns_name_same [OF Suc.prems] l
    by (intro bindO_cong bindR_cong if_cong refl i Suc.IH [OF Suc.prems(1)])
      (use Suc.prems(2) in \<open>auto dest!: skip_dns_name_bound\<close>)
qed simp

lemma parse_dns_response_ignores_id: "parse_dns_response (i # j # r) = parse_dns_response (i' # j' # r)"
proof -
  let ?x = "i # j # r" and ?y = "i' # j' # r"
  have s: "same_from 2 ?x ?y"
    by (auto simp: same_from_def nth_Cons split: nat.splits)
  have i: "idx ?x k = idx ?y k" if "2 \<le> k" for k
    using s that by (rule same_from_idx)
  show ?thesis
    unfolding parse_dns_response_def Let_def DNS_HEADER_SIZE_def
    by (intro bindO_cong bindR_cong if_cong refl i skip_questions_same [OF s] parse_answers_same [OF s])
      (auto dest!: skip_questions_ge)
qed



section \<open>The query is an encoded message\<close>

text \<open>The labels the query carries: the non-empty parts of the name, in order.\<close>

definition query_labels :: "rstr \<Rightarrow> bytes list" where
  "query_labels domain = filter (\<lambda>l. l \<noteq> []) (map utf8 (split_char 46 domain))"

definition standard_query :: "bytes list \<Rightarrow> dns_message" where
  "standard_query ls =
     \<lparr>m_id = [0, 1], m_flags = [1, 0], m_questions = [((ls, Root), [0, 1, 0, 1])],
      m_answers = [], m_counts = [0, 0, 0, 0], m_tail = []\<rparr>"

lemma list_update_append_at: "length b = pos \<Longrightarrow> (b @ x # r)[pos := y] = b @ y # r"
  by (auto simp: list_update_append)

lemma write_labels_step:
  assumes "pos + 1 + length bs < 120" and "length (buf :: bytes) = 128"
  shows "\<exists>buf'. bindR (set_idx buf pos b) (\<lambda>q. copy_into q (pos + 1) (pos + 1 + length bs) bs) = Val buf' \<and>
     length buf' = 128 \<and> take (pos + 1 + length bs) buf' = take pos buf @ b # bs"
proof -
  have "take (Suc pos) (buf[pos := b]) = take pos buf @ [b]"
    using assms by (simp add: take_Suc_conv_app_nth)
  then show ?thesis
    using assms by simp
qed

lemma write_labels_result:
  assumes "length buf = 128" and "length (encode_labels (map utf8 parts)) + pos < 120"
  shows "\<exists>buf'. write_labels buf pos parts =
      Val (buf', pos + length (encode_labels (filter (\<lambda>l. l \<noteq> []) (map utf8 parts)))) \<and>
    length buf' = 128 \<and>
    take (pos + length (encode_labels (filter (\<lambda>l. l \<noteq> []) (map utf8 parts)))) buf' =
      take pos buf @ encode_labels (filter (\<lambda>l. l \<noteq> []) (map utf8 parts))"
  using assms
proof (induction parts arbitrary: buf pos)
  case (Cons part parts)
  let ?bs = "utf8 part"
  show ?case
  proof (cases "?bs = []")
    case True
    with Cons.IH [of buf pos] Cons.prems show ?thesis by simp
  next
    case False
    have fits: "pos + 1 + length ?bs < 120" using Cons.prems(2) by simp
    obtain buf1 where b: "bindR (set_idx buf pos (word_of_nat (length ?bs)))
        (\<lambda>q. copy_into q (pos + 1) (pos + 1 + length ?bs) ?bs) = Val buf1"
      "length buf1 = 128" "take (pos + 1 + length ?bs) buf1 = take pos buf @ word_of_nat (length ?bs) # ?bs"
      using write_labels_step [OF fits Cons.prems(1)] by blast
    from Cons.IH [OF b(2), of "pos + 1 + length ?bs"] Cons.prems(2)
    obtain buf2 where i: "write_labels buf1 (pos + 1 + length ?bs) parts = Val (buf2,
        pos + 1 + length ?bs + length (encode_labels (filter (\<lambda>l. l \<noteq> []) (map utf8 parts))))"
      "length buf2 = 128"
      "take (pos + 1 + length ?bs + length (encode_labels (filter (\<lambda>l. l \<noteq> []) (map utf8 parts)))) buf2 =
        take (pos + 1 + length ?bs) buf1 @ encode_labels (filter (\<lambda>l. l \<noteq> []) (map utf8 parts))"
      by (auto simp: algebra_simps)
    have "write_labels buf pos (part # parts) = write_labels buf1 (pos + 1 + length ?bs) parts"
      using False fits b(1) Cons.prems(1) by simp
    then show ?thesis
      using i b(3) False by (simp add: add.assoc)
  qed
qed simp

lemma utf8_append [simp]: "utf8 (a @ b) = utf8 a @ utf8 b"
  by (simp add: utf8_def)

lemma utf8_Nil [simp]: "utf8 [] = []"
  by (simp add: utf8_def)

lemma utf8_Cons: "utf8 (c # s) = utf8_char c @ utf8 s"
  by (simp add: utf8_def)

lemma labels_length: "length (encode_labels (map utf8 (split_char 46 s))) = length (utf8 s) + 1"
proof (induction s)
  case (Cons c s)
  obtain w ws where w: "split_by (\<lambda>c. c = 46) s = w # ws"
    by (cases "split_by (\<lambda>c. c = 46) s") auto
  with Cons show ?case
    by (auto simp: split_char_def utf8_Cons utf8_char_def)
qed (simp add: split_char_def)

lemma encode_labels_filter_le:
  "length (encode_labels (filter P ls)) \<le> length (encode_labels ls)"
  by (induction ls) auto

lemma encode_standard_query:
  "encode_message (standard_query ls) =
   [0, 1, 1, 0, 0, 1, 0, 0, 0, 0, 0, 0] @ encode_labels ls @ [0, 0, 1, 0, 1]"
  by (simp add: encode_message_def encode_header_def standard_query_def encode_question_def
      encode_name_def to_be_bytes_def)

text \<open>The query in three stages: the header, the labels, the end of the question.\<close>

lemma query_header:
  "bindR (copy_into (replicate 128 (0 :: byte)) 0 2 (to_be_bytes 1)) (\<lambda>query.
   bindR (copy_into query 2 4 (to_be_bytes DNS_FLAGS_STANDARD_QUERY)) (\<lambda>query.
   bindR (copy_into query 4 6 (to_be_bytes 1)) (\<lambda>query.
   bindR (copy_into query 6 8 (to_be_bytes 0)) (\<lambda>query.
   bindR (copy_into query 8 10 (to_be_bytes 0)) (\<lambda>query.
   bindR (copy_into query 10 12 (to_be_bytes 0)) f))))) =
   f ([0, 1, 1, 0, 0, 1, 0, 0, 0, 0, 0, 0] @ replicate 116 0)"
proof -
  have "to_be_bytes 0 = [0, 0]" "to_be_bytes 1 = [0, 1]" "to_be_bytes DNS_FLAGS_STANDARD_QUERY = [1, 0]"
    by code_simp+
  then show ?thesis by simp
qed

lemma query_end:
  assumes "length (b :: bytes) = 128" and "pos \<le> 123"
  shows "bindR (set_idx b pos 0) (\<lambda>q.
      bindR (copy_into q (pos + 1) (pos + 1 + 2) (to_be_bytes DNS_TYPE_A)) (\<lambda>q.
      bindR (copy_into q (pos + 1 + 2) (pos + 1 + 2 + 2) (to_be_bytes DNS_CLASS_IN)) (\<lambda>q.
      Val (q, pos + 1 + 2 + 2)))) =
    Val (take pos b @ [0, 0, 1, 0, 1] @ drop (pos + 5) b, pos + 5)"
proof -
  have "b[pos := 0] = take pos b @ 0 # drop (Suc pos) b"
    using assms by (simp add: upd_conv_take_nth_drop)
  then show ?thesis
    using assms
    by (simp add: to_be_bytes_def DNS_TYPE_A_def DNS_CLASS_IN_def) (simp add: numeral_eq_Suc)
qed

lemma build_query_encodes:
  assumes "length (utf8 domain) \<le> 100"
  shows "\<exists>buf. build_dns_query domain =
      Val (buf, length (encode_message (standard_query (query_labels domain)))) \<and>
    length buf = 128 \<and>
    take (length (encode_message (standard_query (query_labels domain)))) buf =
      encode_message (standard_query (query_labels domain))"
proof -
  let ?ls = "query_labels domain"
  let ?h = "[0, 1, 1, 0, 0, 1, 0, 0, 0, 0, 0, 0] :: bytes"
  let ?b = "?h @ replicate 116 (0 :: byte)"
  let ?n = "length (encode_labels ?ls)"
  have n: "?n \<le> 101"
    using encode_labels_filter_le [of "\<lambda>l. l \<noteq> []" "map utf8 (split_char 46 domain)"]
      labels_length [of domain] assms unfolding query_labels_def by linarith
  have "length ?b = 128" "length (encode_labels (map utf8 (split_char 46 domain))) + 12 < 120"
    using labels_length [of domain] assms by simp_all
  from write_labels_result [OF this] obtain b1 where b1:
    "write_labels ?b DNS_HEADER_SIZE (split_char 46 domain) = Val (b1, 12 + ?n)"
    "length b1 = 128" "take (12 + ?n) b1 = ?h @ encode_labels ?ls"
    unfolding query_labels_def DNS_HEADER_SIZE_def by auto
  let ?buf = "take (12 + ?n) b1 @ [0, 0, 1, 0, 1] @ drop (17 + ?n) b1"
  have "build_dns_query domain = Val (?buf, 12 + ?n + 5)"
    unfolding build_dns_query_def Let_def query_header b1(1)
    using assms query_end [OF b1(2), of "12 + ?n"] n by (simp add: add.assoc [symmetric])
  moreover have e: "?buf = encode_message (standard_query ?ls) @ drop (17 + ?n) b1"
    by (simp only: b1(3) encode_standard_query append.assoc)
  moreover have l: "12 + ?n + 5 = length (encode_message (standard_query ?ls))"
    by (simp add: encode_standard_query)
  moreover have "length ?buf = 128"
    using b1(2) n by simp
  moreover have "take (12 + ?n + 5) ?buf = encode_message (standard_query ?ls)"
    unfolding e l by simp
  ultimately show ?thesis
    by metis
qed


text \<open>
  A reader of queries, written after RFC 1035 and not after the builder: a header of twelve bytes, of
  which the response bit and the operation code are zero and which announces one question and nothing
  else; labels of at most 63 bytes each up to the root; the type and the class, and no byte more.
\<close>

fun read_labels :: "bytes \<Rightarrow> (bytes list \<times> bytes) option" where
  "read_labels [] = None"
| "read_labels (b # r) =
     (let n = unat b in
      if n = 0 then Some ([], r)
      else if 63 < n \<or> length r < n then None
      else map_option (\<lambda>(ls, rest). (take n r # ls, rest)) (read_labels (drop n r)))"

definition read_query :: "bytes \<Rightarrow> (bytes list \<times> u16 \<times> u16) option" where
  "read_query bs =
     (if 12 \<le> length bs \<and> and (bs ! 2) 0xF8 = 0 \<and> take 8 (drop 4 bs) = [0, 1, 0, 0, 0, 0, 0, 0]
      then (case read_labels (drop 12 bs) of
              Some (ls, [t1, t2, c1, c2]) \<Rightarrow> Some (ls, from_be_bytes t1 t2, from_be_bytes c1 c2)
            | _ \<Rightarrow> None)
      else None)"

lemma read_encoded_labels:
  assumes "list_all (\<lambda>l. l \<noteq> [] \<and> length l \<le> 100) ls"
  shows "read_labels (encode_labels ls @ 0 # r) =
    (if list_ex (\<lambda>l. 63 < length l) ls then None else Some (ls, r))"
  using assms
proof (induction ls)
  case (Cons l ls)
  have n: "unat (word_of_nat (length l) :: byte) = length l" "0 < length l"
    using Cons.prems by (auto simp: unat_word_of_nat_byte)
  with Cons show ?case
    by (auto simp: Let_def)
qed simp

lemma query_labels_bound:
  assumes "l \<in> set (query_labels domain)"
  shows "l \<noteq> []" and "length l \<le> length (utf8 domain)"
proof -
  show "l \<noteq> []" using assms by (simp add: query_labels_def)
  have "length l < length (encode_labels ls)" if "l \<in> set ls" for ls :: "bytes list"
    using that by (induction ls) auto
  from this [of "map utf8 (split_char 46 domain)"] show "length l \<le> length (utf8 domain)"
    using assms labels_length [of domain] by (simp add: query_labels_def)
qed

lemma read_standard_query:
  assumes "length (utf8 domain) \<le> 100"
  shows "read_query (encode_message (standard_query (query_labels domain))) =
    (if list_ex (\<lambda>l. 63 < length l) (query_labels domain) then None
     else Some (query_labels domain, DNS_TYPE_A, DNS_CLASS_IN))"
proof -
  have a: "list_all (\<lambda>l. l \<noteq> [] \<and> length l \<le> 100) (query_labels domain)"
    using query_labels_bound [of _ domain] assms by (fastforce simp: list_all_iff)
  show ?thesis
    using read_encoded_labels [OF a, of "[0, 1, 0, 1]"]
    by (simp add: read_query_def encode_standard_query be_simps from_be_bytes_def DNS_TYPE_A_def DNS_CLASS_IN_def)
qed


section \<open>Properties\<close>

text \<open>The loop over the answers without the branch that skips HTTPS and SVCB records.\<close>

fun parse_answers_unfiltered :: "bytes \<Rightarrow> nat \<Rightarrow> nat \<Rightarrow> ip_addr option rust" where
  "parse_answers_unfiltered data 0 pos = Val None"
| "parse_answers_unfiltered data (Suc n) pos =
     bindO (skip_dns_name data pos) (\<lambda>next_pos.
     let pos = next_pos in
     if pos + DNS_RR_HEADER_MIN_SIZE > length data then Val None else
     bindR (idx data pos) (\<lambda>t0. bindR (idx data (pos + 1)) (\<lambda>t1.
     bindR (idx data (pos + 8)) (\<lambda>l0. bindR (idx data (pos + 9)) (\<lambda>l1.
     let rtype = from_be_bytes t0 t1; rdlen = unat (from_be_bytes l0 l1);
         pos = pos + DNS_RR_HEADER_MIN_SIZE in
     if pos + rdlen > length data then Val None
     else if rtype = DNS_TYPE_A \<and> rdlen = 4 then
       bindR (idx data pos) (\<lambda>a. bindR (idx data (pos + 1)) (\<lambda>b.
       bindR (idx data (pos + 2)) (\<lambda>c. bindR (idx data (pos + 3)) (\<lambda>d.
       Val (Some (V4 a b c d))))))
     else parse_answers_unfiltered data n (pos + rdlen))))))"

lemma filter_branch:
  "(if t = DNS_TYPE_HTTPS \<or> t = DNS_TYPE_SVCB then x else if t = DNS_TYPE_A \<and> b then y else x) =
   (if t = DNS_TYPE_A \<and> b then y else x)"
  by (auto simp: dns_consts)

lemma parse_answers_address:
  "parse_answers data n pos = Val (Some ip) \<Longrightarrow>
   \<exists>p. pos < p \<and> p + 4 \<le> length data \<and> ip = V4 (data ! p) (data ! (p + 1)) (data ! (p + 2)) (data ! (p + 3))"
proof (induction n arbitrary: pos)
  case (Suc n)
  then obtain q where q: "skip_dns_name data pos = Val (Some q)"
    by (auto simp: rust_conv)
  then have "pos < q" by (simp add: skip_dns_name_bound)
  let ?q = "q + DNS_RR_HEADER_MIN_SIZE"
  consider (addr) "?q + 4 \<le> length data"
        "ip = V4 (data ! ?q) (data ! (?q + 1)) (data ! (?q + 2)) (data ! (?q + 3))"
    | (next_rr) m where "parse_answers data n (?q + m) = Val (Some ip)"
    using Suc.prems q by (simp add: bindR_eq_Val idx_Val Let_def split: if_splits) blast+
  then show ?case
  proof cases
    case addr
    with \<open>pos < q\<close> show ?thesis by (intro exI [of _ ?q]) simp
  next
    case next_rr
    from Suc.IH [OF this] obtain p where "?q + m < p \<and> p + 4 \<le> length data \<and>
        ip = V4 (data ! p) (data ! (p + 1)) (data ! (p + 2)) (data ! (p + 3))" ..
    with \<open>pos < q\<close> show ?thesis by (intro exI [of _ p]) simp
  qed
qed simp

lemma parse_dns_response_address:
  assumes "parse_dns_response data = Val (Some ip)"
  shows "\<exists>p. 12 < p \<and> p + 4 \<le> length data \<and>
    ip = V4 (data ! p) (data ! (p + 1)) (data ! (p + 2)) (data ! (p + 3))"
proof -
  obtain n k p where "skip_questions data k 12 = Val (Some p)" "parse_answers data n p = Val (Some ip)"
    using assms by (auto simp: parse_dns_response_def rust_conv Let_def DNS_HEADER_SIZE_def split: if_splits)
  then show ?thesis
    using skip_questions_ge parse_answers_address by (meson le_less_trans)
qed

text \<open>
  C10: On every well-formed DNS message the resolver reads the response code and, when it is
  zero, returns the address of the first A record with a four-byte address, whatever records
  (CNAME, HTTPS, SVCB, AAAA) precede it, with compressed names or not, and \<open>None\<close> when there is none.
\<close>

theorem dns_response_decoded:
  assumes "wf_message m"
  shows "parse_dns_response (encode_message m) =
    Val (if and (m_flags m ! 1) 0x0F \<noteq> 0 then None else first_address (m_answers m))"
  by (rule parse_encoded_message [OF assms])

text \<open>The response of the project's own test: an HTTPS record in front of the A record 1.1.1.1.\<close>

definition example_response :: dns_message where
  "example_response =
     \<lparr>m_id = [0, 1], m_flags = [0x81, 0x80], m_questions = [(([[101, 120], [99]], Root), [0, 1, 0, 1])],
      m_answers =
        [\<lparr>rr_name = ([], Pointer 0xC0 0x0C), rr_type = 65, rr_class = 1, rr_ttl = [0, 0, 0, 60],
          rr_data = [1, 2, 3, 4, 5]\<rparr>,
         \<lparr>rr_name = ([], Pointer 0xC0 0x0C), rr_type = 1, rr_class = 1, rr_ttl = [0, 0, 0, 60],
          rr_data = [1, 1, 1, 1]\<rparr>],
      m_counts = [0, 0, 0, 0], m_tail = []\<rparr>"

lemma wf_example_response: "wf_message example_response"
  by (simp add: wf_message_def example_response_def wf_name_def wf_rr_def)

theorem dns_response_decoded_witness:
  "parse_dns_response (encode_message example_response) = Val (Some (V4 1 1 1 1))"
  unfolding dns_response_decoded [OF wf_example_response]
  by (simp add: example_response_def first_address_def is_address_def rr_address_def DNS_TYPE_A_def)

text \<open>
  C31: The response parser never panics, on any datagram; an address it returns is always an
  IPv4 address made of four consecutive bytes of the datagram, behind the header.
\<close>

theorem dns_parser_total:
  "\<exists>r. parse_dns_response data = Val r \<and>
     (case r of None \<Rightarrow> True
      | Some ip \<Rightarrow> \<exists>p. 12 < p \<and> p + 4 \<le> length data \<and>
          ip = V4 (data ! p) (data ! (p + 1)) (data ! (p + 2)) (data ! (p + 3)))"
  using safeD [OF safe_parse_dns_response [of data]] parse_dns_response_address
  by (auto split: option.splits)

text \<open>
  C11: The query is built without a panic for every name, and its bytes are exactly the encoding
  of a standard recursive query for the A record of the non-empty labels of the name, in order;
  no label is dropped for lack of room. A reader of queries after RFC 1035 gets exactly these labels, the
  type A and the class IN back, unless one of the labels is longer than 63 bytes: then the bytes are no
  query at all. A name of more than 100 bytes gives an empty query.
\<close>

theorem dns_query_is_standard_query:
  "\<exists>buf n. build_dns_query domain = Val (buf, n) \<and> length buf = 128 \<and>
     take n buf = (if length (utf8 domain) > 100 then []
                   else encode_message (standard_query (query_labels domain))) \<and>
     read_query (take n buf) =
       (if length (utf8 domain) > 100 \<or> list_ex (\<lambda>l. 63 < length l) (query_labels domain) then None
        else Some (query_labels domain, DNS_TYPE_A, DNS_CLASS_IN))"
proof (cases "length (utf8 domain) > 100")
  case True
  then show ?thesis by (simp add: build_dns_query_def Let_def read_query_def)
next
  case False
  then show ?thesis
    using build_query_encodes [of domain] read_standard_query [of domain] by auto
qed

text \<open>
  The answer is accepted whatever its transaction id is: two datagrams that differ only in
  their first two bytes are parsed to the same result, so the id of the query protects from
  nothing.
\<close>

lemma dns_transaction_id_unchecked:
  "parse_dns_response (i # j # r) = parse_dns_response (i' # j' # r)"
  by (rule parse_dns_response_ignores_id)

text \<open>
  The branch that filters HTTPS and SVCB records has no effect: the parser without it
  returns the same result on every datagram, since only A records are ever used.
\<close>

lemma type65_filter_redundant:
  "parse_answers data n pos = parse_answers_unfiltered data n pos"
proof (induction n arbitrary: pos)
  case (Suc n)
  show ?case
    unfolding parse_answers.simps parse_answers_unfiltered.simps Let_def Suc.IH filter_branch ..
qed simp

text \<open>
  A label of 64 to 100 bytes is written with its length as the length byte, although a
  length byte of 64 or more does not announce a label in the DNS wire format.
\<close>

lemma oversized_label_emitted:
  assumes "64 \<le> n" and "n \<le> 100"
  shows "\<exists>buf. build_dns_query (replicate n 97) = Val (buf, n + 18) \<and> unat (buf ! 12) \<ge> 64"
proof -
  let ?d = "replicate n (97 :: rchar)"
  have u: "utf8 ?d = replicate n 97"
    by (induction n) (simp_all add: utf8_Cons utf8_char_def)
  have "split_char 46 ?d = [?d]"
    unfolding split_char_def by (intro split_by_word) simp
  then have l: "query_labels ?d = [replicate n 97]"
    using assms u by (simp add: query_labels_def)
  obtain buf where b: "build_dns_query ?d = Val (buf, length (encode_message (standard_query (query_labels ?d))))"
    "length buf = 128"
    "take (length (encode_message (standard_query (query_labels ?d)))) buf = encode_message (standard_query (query_labels ?d))"
    using build_query_encodes [of ?d] assms u by auto
  have "length (encode_message (standard_query (query_labels ?d))) = n + 18"
    by (simp add: encode_standard_query l)
  moreover have "buf ! 12 = word_of_nat n"
    using arg_cong [OF b(3), of "\<lambda>xs. xs ! 12"] by (simp add: encode_standard_query l)
  ultimately show ?thesis
    using b(1) assms by (simp add: be_simps)
qed

lemma oversized_label_emitted_example:
  "\<exists>buf. build_dns_query (replicate 64 97) = Val (buf, 82) \<and> unat (buf ! 12) \<ge> 64"
  using oversized_label_emitted [of 64] by simp

end
