(* ===== verification/Dns_Client.thy ===== *)
theory Dns_Client
  imports Net_Io Dns
begin

text \<open>
  \<^verbatim>\<open>src/dns/resolver.rs\<close>, the part with input and output: \<open>DnsResolver::resolve\<close> and
  \<open>DnsResolver::query_udp\<close>. The socket, the timeout and the system resolver are the environment.
\<close>

section \<open>Resolving a name\<close>

text \<open>The loop over the two attempts.\<close>

fun query_attempts :: "env \<Rightarrow> socket_addr \<Rightarrow> bytes \<Rightarrow> nat \<Rightarrow> ip_addr option io" where
  "query_attempts env target msg 0 = okI None"
| "query_attempts env target msg (Suc n) =
     bindI (attempt (udp_send_to env msg target)) (\<lambda>sent. case sent of
        Inl _ \<Rightarrow> query_attempts env target msg n
      | Inr _ \<Rightarrow>
          bindI (udp_recv env 512) (\<lambda>datagram. case datagram of
             None \<Rightarrow> query_attempts env target msg n
           | Some buf \<Rightarrow>
               bindI (liftR (parse_dns_response buf)) (\<lambda>parsed. case parsed of
                  Some ip \<Rightarrow> okI (Some ip)
                | None \<Rightarrow> query_attempts env target msg n)))"

definition query_udp :: "env \<Rightarrow> dns_resolver \<Rightarrow> bytes \<Rightarrow> ip_addr option io" where
  "query_udp env self query_msg =
     (case parse_socket_addr (lit ''0.0.0.0:0'') of
        None \<Rightarrow> okI None
      | Some bind_addr \<Rightarrow>
          bindI (attempt (udp_bind env)) (\<lambda>bound. case bound of
             Inl _ \<Rightarrow> okI None
           | Inr _ \<Rightarrow>
               (case parse_socket_addr (dns_addr self) of
                  None \<Rightarrow> okI None
                | Some target_addr \<Rightarrow> query_attempts env target_addr query_msg 2)))"

definition resolve :: "env \<Rightarrow> dns_resolver \<Rightarrow> rstr \<Rightarrow> ip_addr option io" where
  "resolve env self domain =
     (let clean_domain = trim_end_matches 46 domain in
      case parse_ip clean_domain of
        Some ip \<Rightarrow> okI (Some ip)
      | None \<Rightarrow>
          bindI (liftR (build_dns_query clean_domain)) (\<lambda>(query_buf, query_len).
          if query_len = 0 then okI None else
          bindI (liftR (slice_to query_buf query_len)) (\<lambda>query_msg.
          bindI (query_udp env self query_msg) (\<lambda>answer. case answer of
             Some ip \<Rightarrow> okI (Some ip)
           | None \<Rightarrow>
               bindI (attempt (lookup_host env (clean_domain @ lit '':443''))) (\<lambda>found. case found of
                  Inl _ \<Rightarrow> okI None
                | Inr addrs \<Rightarrow> (case addrs of [] \<Rightarrow> okI None | addr # _ \<Rightarrow> okI (Some (sa_ip addr))))))))"


section \<open>What the resolver does\<close>

text \<open>The datagrams sent, in order.\<close>

definition datagrams :: "history \<Rightarrow> (socket_addr \<times> bytes) list" where
  "datagrams es = List.map_filter (\<lambda>e. case e of Udp_Sent a m \<Rightarrow> Some (a, m) | _ \<Rightarrow> None) es"

lemma datagrams_simps [simp]:
  "datagrams [] = []"
  "datagrams (es @ es') = datagrams es @ datagrams es'"
  "datagrams (Udp_Sent a m # es) = (a, m) # datagrams es"
  "datagrams (Udp_Received d # es) = datagrams es"
  "datagrams (Udp_Bound # es) = datagrams es"
  "datagrams (Looked_Up n addrs # es) = datagrams es"
  by (simp_all add: datagrams_def List.map_filter_def)

text \<open>Where an address may come from.\<close>

definition from_datagram :: "history \<Rightarrow> ip_addr \<Rightarrow> bool" where
  "from_datagram es ip \<longleftrightarrow>
     (\<exists>buf. Udp_Received (Some buf) \<in> set es \<and> length buf \<le> 512 \<and> parse_dns_response buf = Val (Some ip))"

definition from_system :: "rstr \<Rightarrow> history \<Rightarrow> ip_addr \<Rightarrow> bool" where
  "from_system name es ip \<longleftrightarrow>
     (\<exists>addr addrs. Looked_Up name (Some (addr # addrs)) \<in> set es \<and> ip = sa_ip addr)"

text \<open>A resolution step: only silent events, at most \<open>n\<close> datagrams, all of them \<open>(t, msg)\<close>.\<close>

definition resolver_event :: "event \<Rightarrow> bool" where
  "resolver_event e =
     (case e of Udp_Bound \<Rightarrow> True | Udp_Sent _ _ \<Rightarrow> True | Udp_Received _ \<Rightarrow> True | Looked_Up _ _ \<Rightarrow> True | _ \<Rightarrow> False)"

lemma does_send:
  "does (\<lambda>es r. (r = Ok () \<and> es = [Udp_Sent addr msg]) \<or> (\<exists>e. r = Err e \<and> es = [])) (udp_send_to env msg addr)"
  by (rule doesI) (auto simp: udp_send_to_def split: option.splits)

lemma does_udp_bind:
  "does (\<lambda>es r. (r = Ok () \<and> es = [Udp_Bound]) \<or> (\<exists>e. r = Err e \<and> es = [])) (udp_bind env)"
  by (rule doesI) (auto simp: udp_bind_def split: option.splits)

lemma does_lookup:
  "does (\<lambda>es r. (\<exists>addrs. r = Ok addrs \<and> es = [Looked_Up name (Some addrs)]) \<or> (\<exists>e. r = Err e \<and> es = [Looked_Up name None]))
     (lookup_host env name)"
  by (rule doesI) (auto simp: lookup_host_def split: sum.splits)

definition query_post :: "socket_addr \<Rightarrow> bytes \<Rightarrow> nat \<Rightarrow> history \<Rightarrow> ip_addr option res \<Rightarrow> bool" where
  "query_post target msg n es r \<longleftrightarrow>
     (case r of Ok a \<Rightarrow> (case a of None \<Rightarrow> True | Some ip \<Rightarrow> from_datagram es ip) | _ \<Rightarrow> False) \<and>
     length (datagrams es) \<le> n \<and> set (datagrams es) \<subseteq> {(target, msg)} \<and> list_all resolver_event es"

lemma query_attempts_post: "does (query_post target msg n) (query_attempts env target msg n)"
proof (induction n)
  case 0
  show ?case by (simp add: does_ok query_post_def)
next
  case (Suc n)
  show ?case
  proof (rule doesI)
    fix h
    have rec: "\<exists>es r. query_attempts env target msg n h' = (r, h' @ es) \<and> query_post target msg n es r" for h'
      by (rule doesD [OF Suc])
    show "\<exists>es r. query_attempts env target msg (Suc n) h = (r, h @ es) \<and> query_post target msg (Suc n) es r"
    proof (cases "on_udp_send env h target msg")
      case (Some e)
      then have "query_attempts env target msg (Suc n) h = query_attempts env target msg n h"
        by (simp add: bindI_def attempt_def udp_send_to_def)
      with rec [of h] show ?thesis by (auto simp: query_post_def)
    next
      case None
      define d where "d = map_option (take 512) (on_udp_recv env (h @ [Udp_Sent target msg]))"
      let ?es = "[Udp_Sent target msg, Udp_Received d]"
      have go: "query_attempts env target msg (Suc n) h =
          (case d of
             None \<Rightarrow> query_attempts env target msg n
           | Some buf \<Rightarrow> bindI (liftR (parse_dns_response buf)) (\<lambda>parsed. case parsed of
                Some ip \<Rightarrow> okI (Some ip) | None \<Rightarrow> query_attempts env target msg n)) (h @ ?es)"
        using None by (simp add: bindI_def attempt_def udp_send_to_def udp_recv_def Let_def d_def)
      show ?thesis
      proof (cases "\<exists>buf ip. d = Some buf \<and> parse_dns_response buf = Val (Some ip)")
        case True
        then obtain buf ip where b: "d = Some buf" "parse_dns_response buf = Val (Some ip)" by blast
        then have "length buf \<le> 512" by (auto simp: d_def)
        with b go show ?thesis
          by (auto simp: bindI_def liftR_def okI_def query_post_def from_datagram_def resolver_event_def)
      next
        case False
        then have "query_attempts env target msg (Suc n) h = query_attempts env target msg n (h @ ?es)"
        proof (cases d)
          case (Some buf)
          obtain x where "parse_dns_response buf = Val x"
            using safeD [OF safe_parse_dns_response] by blast
          with False Some have "parse_dns_response buf = Val None"
            by (cases x) auto
          with Some show ?thesis
            unfolding go by (simp add: bindI_def liftR_def)
        next
          case None
          then show ?thesis unfolding go by simp
        qed
        moreover obtain es r where "query_attempts env target msg n (h @ ?es) = (r, (h @ ?es) @ es)"
          "query_post target msg n es r"
          using rec [of "h @ ?es"] by blast
        ultimately have "query_attempts env target msg (Suc n) h = (r, h @ (?es @ es))"
          "query_post target msg n es r"
          by simp_all
        then show ?thesis
          by (intro exI [of _ "?es @ es"] exI [of _ r])
            (auto simp: query_post_def from_datagram_def resolver_event_def split: option.splits res.splits)
      qed
    qed
  qed
qed

text \<open>The same for one query to the configured server, when its address is one.\<close>

definition udp_post :: "dns_resolver \<Rightarrow> bytes \<Rightarrow> history \<Rightarrow> ip_addr option res \<Rightarrow> bool" where
  "udp_post self msg es r \<longleftrightarrow>
     (case r of Ok a \<Rightarrow> (case a of None \<Rightarrow> True | Some ip \<Rightarrow> from_datagram es ip) | _ \<Rightarrow> False) \<and>
     length (datagrams es) \<le> 2 \<and>
     set (datagrams es) \<subseteq> {(t, m). parse_socket_addr (dns_addr self) = Some t \<and> m = msg} \<and>
     list_all resolver_event es"

lemma query_udp_post: "does (udp_post self msg) (query_udp env self msg)"
proof (cases "parse_socket_addr (lit ''0.0.0.0:0'')")
  case None
  then show ?thesis by (simp add: query_udp_def does_ok udp_post_def)
next
  case (Some b)
  have q: "does (udp_post self msg) (case parse_socket_addr (dns_addr self) of
      None \<Rightarrow> okI None | Some target_addr \<Rightarrow> query_attempts env target_addr msg 2)"
  proof (cases "parse_socket_addr (dns_addr self)")
    case (Some t)
    have "does (udp_post self msg) (query_attempts env t msg 2)"
      by (rule does_mono [OF query_attempts_post]) (use Some in \<open>auto simp: query_post_def udp_post_def\<close>)
    with Some show ?thesis by simp
  qed (simp add: does_ok udp_post_def)
  have "does (\<lambda>es r. (r = Ok (Inr ()) \<and> es = [Udp_Bound]) \<or> (\<exists>e. r = Ok (Inl e) \<and> es = [])) (attempt (udp_bind env))"
    by (rule does_attempt [OF does_udp_bind]) auto
  then have "does (udp_post self msg) (bindI (attempt (udp_bind env)) (\<lambda>bound. case bound of
      Inl _ \<Rightarrow> okI None
    | Inr _ \<Rightarrow> (case parse_socket_addr (dns_addr self) of
        None \<Rightarrow> okI None | Some target_addr \<Rightarrow> query_attempts env target_addr msg 2)))"
  proof (rule does_bind [where Q = "\<lambda>x. case x of Inl _ \<Rightarrow> (\<lambda>es r. es = [] \<and> r = Ok None) | Inr _ \<Rightarrow> udp_post self msg"])
    fix es x
    show "does (case x of Inl _ \<Rightarrow> (\<lambda>es r. es = [] \<and> r = Ok None) | Inr _ \<Rightarrow> udp_post self msg)
        (case x of Inl _ \<Rightarrow> okI None
          | Inr _ \<Rightarrow> (case parse_socket_addr (dns_addr self) of
              None \<Rightarrow> okI None | Some target_addr \<Rightarrow> query_attempts env target_addr msg 2))"
      using q by (cases x) (simp_all add: does_ok)
  qed (auto simp: udp_post_def from_datagram_def resolver_event_def split: sum.splits option.splits res.splits)
  with Some show ?thesis by (simp add: query_udp_def)
qed

definition resolve_post :: "dns_resolver \<Rightarrow> rstr \<Rightarrow> history \<Rightarrow> ip_addr option res \<Rightarrow> bool" where
  "resolve_post self domain es r \<longleftrightarrow>
     (let clean = trim_end_matches 46 domain in
      (case r of
         Ok a \<Rightarrow>
           (case a of None \<Rightarrow> parse_ip clean = None
            | Some ip \<Rightarrow> (parse_ip clean = Some ip \<and> es = []) \<or>
                (parse_ip clean = None \<and> (from_datagram es ip \<or> from_system (clean @ lit '':443'') es ip)))
       | _ \<Rightarrow> False) \<and>
      length (datagrams es) \<le> 2 \<and>
      set (datagrams es) \<subseteq> {(t, m). parse_socket_addr (dns_addr self) = Some t \<and>
        m = encode_message (standard_query (query_labels clean))} \<and>
      list_all resolver_event es)"

lemma resolve_does: "does (resolve_post self domain) (resolve env self domain)"
proof -
  define clean where "clean = trim_end_matches 46 domain"
  show ?thesis
  proof (cases "parse_ip clean")
    case (Some ip)
    then show ?thesis
      by (simp add: resolve_def clean_def [symmetric] does_ok resolve_post_def)
  next
    case None
    note none = None
    let ?msg = "encode_message (standard_query (query_labels clean))"
    show ?thesis
    proof (cases "length (utf8 clean) > 100")
      case True
      then have "build_dns_query clean = Val (replicate 128 0, 0)"
        by (simp add: build_dns_query_def Let_def)
      then have "resolve env self domain = okI None"
        using none by (intro ext) (simp add: resolve_def clean_def [symmetric] bindI_def liftR_def)
      then show ?thesis
        using none by (simp add: does_ok resolve_post_def clean_def [symmetric])
    next
      case False
      then obtain buf where b: "build_dns_query clean = Val (buf, length ?msg)" "length buf = 128"
        "take (length ?msg) buf = ?msg"
        using build_query_encodes [of clean] by auto
      have pos: "length ?msg \<noteq> 0" by (simp add: encode_standard_query)
      have "length ?msg \<le> length buf"
        using b(3) by (metis length_take min.cobounded1)
      then have sl: "slice_to buf (length ?msg) = Val ?msg"
        using b(3) by (simp add: slice_to_def)
      have eq: "resolve env self domain =
          bindI (query_udp env self ?msg) (\<lambda>answer. case answer of
             Some ip \<Rightarrow> okI (Some ip)
           | None \<Rightarrow>
               bindI (attempt (lookup_host env (clean @ lit '':443''))) (\<lambda>found. case found of
                  Inl _ \<Rightarrow> okI None
                | Inr addrs \<Rightarrow> (case addrs of [] \<Rightarrow> okI None | addr # _ \<Rightarrow> okI (Some (sa_ip addr)))))"
        using none b(1) pos sl
        by (intro ext) (simp add: resolve_def clean_def [symmetric] bindI_def liftR_def)
      let ?Q = "\<lambda>es r. (\<exists>addrs. es = [Looked_Up (clean @ lit '':443'') addrs]) \<and>
          (case r of Ok a \<Rightarrow> (case a of None \<Rightarrow> True | Some ip \<Rightarrow> from_system (clean @ lit '':443'') es ip) | _ \<Rightarrow> False)"
      have look: "does ?Q (bindI (attempt (lookup_host env (clean @ lit '':443''))) (\<lambda>found. case found of
          Inl _ \<Rightarrow> okI None
        | Inr addrs \<Rightarrow> (case addrs of [] \<Rightarrow> okI None | addr # _ \<Rightarrow> okI (Some (sa_ip addr)))))"
        by (rule doesI) (auto simp: bindI_def attempt_def lookup_host_def okI_def from_system_def split: sum.splits list.splits)
      show ?thesis
        unfolding eq
      proof (rule does_bind [OF query_udp_post, where Q = "\<lambda>answer. case answer of
            Some ip \<Rightarrow> (\<lambda>es r. es = [] \<and> r = Ok (Some ip)) | None \<Rightarrow> ?Q"], goal_cases)
        case (1 es x)
        then show ?case
          using look by (cases x) (simp_all add: does_ok)
      next
        case (4 es x es' r)
        then show ?case
          using none
          by (cases x)
            (auto simp: udp_post_def resolve_post_def clean_def [symmetric] from_datagram_def
              from_system_def resolver_event_def split: option.splits res.splits)
      qed (auto simp: udp_post_def)
    qed
  qed
qed


section \<open>Which answer decides\<close>

text \<open>The address a received datagram gives, and the one a system lookup gives.\<close>

fun usable :: "event \<Rightarrow> ip_addr option" where
  "usable (Udp_Received (Some buf)) = (case parse_dns_response buf of Val a \<Rightarrow> a | Panic \<Rightarrow> None)"
| "usable _ = None"

fun system_answer :: "event \<Rightarrow> ip_addr option" where
  "system_answer (Looked_Up _ (Some (addr # _))) = Some (sa_ip addr)"
| "system_answer _ = None"

text \<open>The first of the events that has an answer.\<close>

fun first_answer :: "(event \<Rightarrow> ip_addr option) \<Rightarrow> history \<Rightarrow> ip_addr option" where
  "first_answer f [] = None"
| "first_answer f (e # es) = (case f e of Some ip \<Rightarrow> Some ip | None \<Rightarrow> first_answer f es)"

lemma first_answer_append:
  "first_answer f (es @ es') = (case first_answer f es of Some ip \<Rightarrow> Some ip | None \<Rightarrow> first_answer f es')"
  by (induction es) (auto split: option.splits)

definition lookups :: "history \<Rightarrow> rstr list" where
  "lookups es = List.map_filter (\<lambda>e. case e of Looked_Up name _ \<Rightarrow> Some name | _ \<Rightarrow> None) es"

lemma lookups_simps [simp]:
  "lookups [] = []" "lookups (es @ es') = lookups es @ lookups es'"
  "lookups (Looked_Up name a # es) = name # lookups es" "lookups (Udp_Bound # es) = lookups es"
  "lookups (Udp_Sent t m # es) = lookups es" "lookups (Udp_Received d # es) = lookups es"
  by (simp_all add: lookups_def List.map_filter_def)

definition udp_decided :: "history \<Rightarrow> ip_addr option res \<Rightarrow> bool" where
  "udp_decided es r \<longleftrightarrow> r = Ok (first_answer usable es) \<and> lookups es = []"

lemma recv_decides:
  "does (\<lambda>es r. \<exists>d. r = Ok d \<and> es = [Udp_Received d]) (udp_recv env max_len)"
  by (rule does_mono [OF does_udp_recv]) auto

lemma query_attempts_decided: "does udp_decided (query_attempts env target msg n)"
proof (induction n)
  case 0
  show ?case by (simp add: does_ok udp_decided_def)
next
  case (Suc n)
  have recv: "does udp_decided (bindI (udp_recv env 512) (\<lambda>datagram. case datagram of
       None \<Rightarrow> query_attempts env target msg n
     | Some buf \<Rightarrow>
         bindI (liftR (parse_dns_response buf)) (\<lambda>parsed. case parsed of
            Some ip \<Rightarrow> okI (Some ip)
          | None \<Rightarrow> query_attempts env target msg n)))"
  proof (rule does_bind [OF recv_decides, where Q = "\<lambda>d es r. r = Ok (first_answer usable (Udp_Received d # es)) \<and> lookups es = []"],
      goal_cases)
    case (1 es d)
    show ?case
    proof (cases d)
      case None
      then show ?thesis
        using Suc by (auto simp: udp_decided_def elim: does_mono)
    next
      case (Some buf)
      obtain a where a: "parse_dns_response buf = Val a"
        using safeD [OF safe_parse_dns_response] by blast
      show ?thesis
        using Suc by (cases a) (auto simp: Some a udp_decided_def does_ok bindI_def liftR_def elim: does_mono)
    qed
  qed (auto simp: udp_decided_def)
  show ?case
    unfolding query_attempts.simps
  proof (rule does_bind [where P = "\<lambda>es r. (r = Ok (Inr ()) \<and> es = [Udp_Sent target msg]) \<or> (\<exists>e. r = Ok (Inl e) \<and> es = [])"
        and Q = "\<lambda>_. udp_decided"], goal_cases)
    case 1
    show ?case by (rule does_attempt [OF does_send]) auto
  next
    case (2 es x)
    then show ?case using Suc recv by (cases x) auto
  qed (auto simp: udp_decided_def)
qed

lemma query_udp_decided: "does udp_decided (query_udp env self msg)"
proof -
  have q: "does udp_decided (case parse_socket_addr (dns_addr self) of
      None \<Rightarrow> okI None | Some target_addr \<Rightarrow> query_attempts env target_addr msg 2)"
    using query_attempts_decided
    by (cases "parse_socket_addr (dns_addr self)") (simp_all add: does_ok udp_decided_def)
  have b: "does (\<lambda>es r. (r = Ok (Inr ()) \<and> es = [Udp_Bound]) \<or> (\<exists>e. r = Ok (Inl e) \<and> es = [])) (attempt (udp_bind env))"
    by (rule does_attempt [OF does_udp_bind]) auto
  have "does udp_decided (bindI (attempt (udp_bind env)) (\<lambda>bound. case bound of
      Inl _ \<Rightarrow> okI None
    | Inr _ \<Rightarrow> (case parse_socket_addr (dns_addr self) of
        None \<Rightarrow> okI None | Some target_addr \<Rightarrow> query_attempts env target_addr msg 2)))"
  proof (rule does_bind [OF b, where Q = "\<lambda>_. udp_decided"], goal_cases)
    case (1 es x)
    then show ?case using q by (cases x) (simp_all add: does_ok udp_decided_def)
  qed (auto simp: udp_decided_def)
  then show ?thesis
    by (cases "parse_socket_addr (lit ''0.0.0.0:0'')") (simp_all add: query_udp_def does_ok udp_decided_def)
qed

text \<open>The system resolver is asked once, for the name with port 443, exactly when no datagram is usable.\<close>

definition decided :: "rstr \<Rightarrow> history \<Rightarrow> ip_addr option res \<Rightarrow> bool" where
  "decided name es r \<longleftrightarrow>
     (case first_answer usable es of
        Some ip \<Rightarrow> r = Ok (Some ip) \<and> lookups es = []
      | None \<Rightarrow> r = Ok (first_answer system_answer es) \<and> lookups es = [name])"

lemma first_system_None: "lookups es = [] \<Longrightarrow> first_answer system_answer es = None"
proof (induction es)
  case (Cons e es)
  then show ?case
    by (cases e) (auto simp: lookups_def List.map_filter_def)
qed simp

lemma resolve_unfold:
  assumes "parse_ip (trim_end_matches 46 domain) = None" and "length (utf8 (trim_end_matches 46 domain)) \<le> 100"
  shows "\<exists>msg. resolve env self domain =
    bindI (query_udp env self msg) (\<lambda>answer. case answer of
       Some ip \<Rightarrow> okI (Some ip)
     | None \<Rightarrow>
         bindI (attempt (lookup_host env (trim_end_matches 46 domain @ lit '':443''))) (\<lambda>found. case found of
            Inl _ \<Rightarrow> okI None
          | Inr addrs \<Rightarrow> (case addrs of [] \<Rightarrow> okI None | addr # _ \<Rightarrow> okI (Some (sa_ip addr)))))"
proof -
  let ?clean = "trim_end_matches 46 domain"
  let ?msg = "encode_message (standard_query (query_labels ?clean))"
  obtain buf where b: "build_dns_query ?clean = Val (buf, length ?msg)" "take (length ?msg) buf = ?msg"
    using build_query_encodes [OF assms(2)] by auto
  have pos: "length ?msg \<noteq> 0" by (simp add: encode_standard_query)
  have sl: "slice_to buf (length ?msg) = Val ?msg"
    using b(2) by (metis length_take min.cobounded1 slice_to_def)
  show ?thesis
    using assms(1) b(1) pos sl
    by (intro exI [of _ ?msg] ext) (simp add: resolve_def bindI_def liftR_def Let_def)
qed

lemma lookup_decides:
  "does (\<lambda>es r. r = Ok (first_answer system_answer es) \<and> first_answer usable es = None \<and> lookups es = [name])
    (bindI (attempt (lookup_host env name)) (\<lambda>found. case found of
       Inl _ \<Rightarrow> okI None
     | Inr addrs \<Rightarrow> (case addrs of [] \<Rightarrow> okI None | addr # _ \<Rightarrow> okI (Some (sa_ip addr)))))"
  by (rule doesI) (auto simp: bindI_def attempt_def lookup_host_def okI_def split: sum.splits list.splits)

lemma resolve_decided:
  assumes "parse_ip (trim_end_matches 46 domain) = None" and "length (utf8 (trim_end_matches 46 domain)) \<le> 100"
  shows "does (decided (trim_end_matches 46 domain @ lit '':443'')) (resolve env self domain)"
proof -
  let ?name = "trim_end_matches 46 domain @ lit '':443''"
  obtain msg where eq: "resolve env self domain =
    bindI (query_udp env self msg) (\<lambda>answer. case answer of
       Some ip \<Rightarrow> okI (Some ip)
     | None \<Rightarrow>
         bindI (attempt (lookup_host env ?name)) (\<lambda>found. case found of
            Inl _ \<Rightarrow> okI None
          | Inr addrs \<Rightarrow> (case addrs of [] \<Rightarrow> okI None | addr # _ \<Rightarrow> okI (Some (sa_ip addr)))))"
    using resolve_unfold [OF assms] by blast
  show ?thesis
    unfolding eq
  proof (rule does_bind [OF query_udp_decided, where Q = "\<lambda>answer. case answer of
        Some ip \<Rightarrow> (\<lambda>es r. es = [] \<and> r = Ok (Some ip))
      | None \<Rightarrow> (\<lambda>es r. r = Ok (first_answer system_answer es) \<and> first_answer usable es = None \<and> lookups es = [?name])"],
      goal_cases)
    case (1 es x)
    then show ?case using lookup_decides by (cases x) (simp_all add: does_ok)
  next
    case (4 es x es' r)
    then show ?case
      by (cases "first_answer usable es")
        (auto simp: udp_decided_def decided_def first_answer_append first_system_None)
  qed (auto simp: udp_decided_def)
qed


section \<open>The contract of a resolver\<close>

text \<open>
  What the handlers rely on when they look a name up: an answer or none, never an error or a panic, and
  nothing happens but lookups and datagrams.
\<close>

locale quiet_resolver =
  fixes find :: "env \<Rightarrow> rstr \<Rightarrow> ip_addr option io"
  assumes find_quiet: "does (\<lambda>es r. list_all resolver_event es \<and> (\<exists>a. r = Ok a)) (find env name)"
begin

lemma answers_always: "\<exists>a es. find env name h = (Ok a, h @ es) \<and> list_all resolver_event es"
  using doesD [OF find_quiet, of env name h] by auto

lemma causes:
  assumes "\<And>e. resolver_event e \<Longrightarrow> P e"
  shows "emits P (find env name)"
  unfolding emits_def by (rule does_mono [OF find_quiet]) (use assms in \<open>auto simp: list_all_iff\<close>)

lemma writes_nothing: "sent s (snd (find env name h)) = sent s h"
proof -
  obtain a es where "find env name h = (Ok a, h @ es)" "list_all resolver_event es"
    using answers_always by blast
  moreover from this(2) have "sent s es = []"
    by (intro sent_silent) (auto simp: list_all_iff resolver_event_def written_def split: event.splits)
  ultimately show ?thesis by simp
qed

end

interpretation dns: quiet_resolver "\<lambda>env name. resolve env self name" for self
proof
  fix env name
  show "does (\<lambda>es r. list_all resolver_event es \<and> (\<exists>a. r = Ok a)) (resolve env self name)"
    by (rule does_mono [OF resolve_does]) (auto simp: resolve_post_def Let_def split: res.splits)
qed


section \<open>Properties\<close>

text \<open>
  C18: Resolving a name never panics and never fails with an error. An address it returns is the
  literal itself, without any traffic; or, for a name that is no literal, the A record of a
  datagram received; or the first answer of the system resolver for the name with port 443. At
  most two datagrams are sent, only to the configured server, each of them the encoded standard
  query for the labels of the name, and nothing is written to a TCP connection.
\<close>

theorem resolve_provenance:
  "\<exists>a es. resolve env self domain h = (Ok a, h @ es) \<and> resolve_post self domain es (Ok a)"
proof -
  obtain es r where "resolve env self domain h = (r, h @ es)" "resolve_post self domain es r"
    using doesD [OF resolve_does] by blast
  moreover from this obtain a where "r = Ok a"
    by (cases r) (auto simp: resolve_post_def Let_def)
  ultimately show ?thesis by blast
qed


text \<open>
  The expected course: when the socket opens and the first datagram that comes back is a
  well-formed response without error that has an A record, the resolver returns that address
  after a single datagram, and does not ask the system resolver.
\<close>

lemma resolve_first_answer:
  assumes "parse_ip (trim_end_matches 46 domain) = None" and "length (utf8 (trim_end_matches 46 domain)) \<le> 100"
    and "parse_socket_addr (dns_addr self) = Some t"
    and "on_udp_bind env h = None"
    and "on_udp_send env (h @ [Udp_Bound]) t msg = None"
    and "on_udp_recv env (h @ [Udp_Bound, Udp_Sent t msg]) = Some (encode_message m)"
    and "msg = encode_message (standard_query (query_labels (trim_end_matches 46 domain)))"
    and "wf_message m" and "length (encode_message m) \<le> 512" and "and (m_flags m ! 1) 0x0F = 0"
    and "first_address (m_answers m) = Some ip"
  shows "resolve env self domain h =
    (Ok (Some ip), h @ [Udp_Bound, Udp_Sent t msg, Udp_Received (Some (encode_message m))])"
proof -
  let ?clean = "trim_end_matches 46 domain"
  obtain buf where b: "build_dns_query ?clean = Val (buf, length msg)" "take (length msg) buf = msg"
    using build_query_encodes [OF assms(2)] assms(7) by auto
  have "length msg \<noteq> 0" by (simp add: assms(7) encode_standard_query)
  moreover have "slice_to buf (length msg) = Val msg"
    using b(2) by (metis length_take min.cobounded1 slice_to_def)
  moreover obtain any where any: "parse_socket_addr (lit ''0.0.0.0:0'') = Some any"
  proof -
    have "parse_socket_addr (lit ''0.0.0.0:0'') \<noteq> None" by code_simp
    with that show thesis by blast
  qed
  moreover have "query_udp env self msg h =
      (Ok (Some ip), h @ [Udp_Bound, Udp_Sent t msg, Udp_Received (Some (encode_message m))])"
  proof -
    have "parse_dns_response (encode_message m) = Val (Some ip)"
      using parse_encoded_message [OF assms(8)] assms(10,11) by simp
    then show ?thesis
      using assms(3-6,9) any
      by (simp add: query_udp_def bindI_def liftR_def attempt_def udp_bind_def
          udp_send_to_def udp_recv_def okI_def numeral_2_eq_2 Let_def)
  qed
  ultimately show ?thesis
    using assms(1) b(1) by (simp add: resolve_def bindI_def liftR_def okI_def Let_def)
qed

text \<open>An environment in which every call succeeds, and the response that comes back.\<close>

definition calm_env :: env where
  "calm_env =
     \<lparr>on_read = (\<lambda>h s. Inr []), on_write_all = (\<lambda>h s d. None), on_write_vectored = (\<lambda>h s bs. Inr 3),
      on_flush = (\<lambda>h s. None), on_open = (\<lambda>h s v6. None), on_connect = (\<lambda>h s a. None), on_option = (\<lambda>h s opt. True),
      on_lookup = (\<lambda>h n. Inr []), on_udp_bind = (\<lambda>h. None), on_udp_send = (\<lambda>h a m. None),
      on_udp_recv = (\<lambda>h. Some (encode_message example_response)), on_random = (\<lambda>h. 7),
      on_tunnel = (\<lambda>h. None)\<rparr>"

lemma resolve_first_answer_example:
  "resolve calm_env (new_resolver []) (lit ''ex.c.'') [] =
    (Ok (Some (V4 1 1 1 1)),
     [] @ [Udp_Bound, Udp_Sent \<lparr>sa_ip = V4 127 0 0 1, sa_port = 53\<rparr>
       (encode_message (standard_query (query_labels (trim_end_matches 46 (lit ''ex.c.''))))),
      Udp_Received (Some (encode_message example_response))])"
proof (rule resolve_first_answer)
  show "parse_ip (trim_end_matches 46 (lit ''ex.c.'')) = None" by code_simp
  show "parse_socket_addr (dns_addr (new_resolver [])) = Some \<lparr>sa_ip = V4 127 0 0 1, sa_port = 53\<rparr>" by code_simp
  show "wf_message example_response" by (rule wf_example_response)
  show "first_address (m_answers example_response) = Some (V4 1 1 1 1)" by code_simp
  show "and (m_flags example_response ! 1) 0x0F = 0" by code_simp
  show "length (encode_message example_response) \<le> 512"
    by code_simp
  show "length (utf8 (trim_end_matches 46 (lit ''ex.c.''))) \<le> 100" by code_simp
qed (simp_all add: calm_env_def)

text \<open>
  C36: The answer of the resolver is determined by what arrives: for a name that is no literal and fits a
  query it is the address of the first datagram that parses to one, and then the system is not asked;
  when no datagram does, because nothing could be sent, nothing came or nothing was usable, the system
  resolver is asked exactly once, for the name with port 443, and its first address is the answer.
\<close>

theorem first_usable_answer_decides:
  assumes "parse_ip (trim_end_matches 46 domain) = None" and "length (utf8 (trim_end_matches 46 domain)) \<le> 100"
  shows "\<exists>r es. resolve env self domain h = (r, h @ es) \<and> decided (trim_end_matches 46 domain @ lit '':443'') es r"
  using doesD [OF resolve_decided [OF assms], of env self h] by blast

theorem first_usable_answer_decides_witness:
  "\<exists>r es. resolve calm_env (new_resolver []) (lit ''ex.c.'') [] = (r, [] @ es) \<and>
     decided (trim_end_matches 46 (lit ''ex.c.'') @ lit '':443'') es r"
  by (rule first_usable_answer_decides) code_simp+

text \<open>
  The address of the DNS server: an empty option means the default server; an IPv4 literal
  without a port gets port 53; an IPv6 literal without brackets contains a colon, is taken
  as it is and is no socket address, so no query is ever sent to it.
\<close>

lemma resolver_server_addresses:
  "parse_socket_addr (dns_addr (new_resolver [])) = Some \<lparr>sa_ip = V4 127 0 0 1, sa_port = 53\<rparr> \<and>
   parse_socket_addr (dns_addr (new_resolver (lit ''8.8.8.8''))) = Some \<lparr>sa_ip = V4 8 8 8 8, sa_port = 53\<rparr> \<and>
   parse_socket_addr (dns_addr (new_resolver (lit ''1.1.1.1:5353''))) = Some \<lparr>sa_ip = V4 1 1 1 1, sa_port = 5353\<rparr> \<and>
   parse_socket_addr (dns_addr (new_resolver (lit ''2606:4700:4700::1111''))) = None"
  by (intro conjI) code_simp+

end
