(* ===== verification/Utils.thy ===== *)
theory Utils
  imports Ip_Addr
begin

text \<open>
  \<^verbatim>\<open>src/utils.rs\<close>, the string functions: recognising a CONNECT request and its target, cleaning
  the request text (tracking headers, extra spaces, mixed case), the host name tests. The two
  functions of the file that write to a socket or sleep are in the theory \<open>Net_Send\<close>.

  The passes over a request share one contract, the locale \<open>request_pass\<close>: the words of the
  request line that decide about the connection are kept. Each pass is an instance, and the
  client lemma (the CONNECT target survives) is proved once.
\<close>

section \<open>Constants\<close>

definition PROXY_HEADERS_TO_REMOVE :: "rstr list" where
  "PROXY_HEADERS_TO_REMOVE =
     [lit ''client-ip'', lit ''x-forwarded-for'', lit ''x-forwarded-host'', lit ''x-forwarded-proto'',
      lit ''x-real-ip'', lit ''forwarded'', lit ''via'', lit ''proxy-authorization'',
      lit ''proxy-connection'']"

definition PADDING_INCOMPATIBLE_DOMAINS :: "rstr list" where
  "PADDING_INCOMPATIBLE_DOMAINS =
     [lit ''instagram.com'', lit ''facebook.com'', lit ''fbcdn.net'', lit ''cdninstagram.com'',
      lit ''messenger.com'', lit ''whatsapp.net'', lit ''whatsapp.com'']"


section \<open>Operations\<close>

definition is_http_connect :: "rstr \<Rightarrow> bool" where
  "is_http_connect header_line =
     (let trimmed = trim_start header_line;
          first_word = (case split_whitespace trimmed of [] \<Rightarrow> [] | w # _ \<Rightarrow> w)
      in eq_ignore_ascii_case first_word (lit ''CONNECT''))"

definition is_padding_incompatible_domain :: "(rstr \<Rightarrow> rstr) \<Rightarrow> rstr \<Rightarrow> bool" where
  "is_padding_incompatible_domain uc host =
     (let lower = to_lowercase uc host
      in list_ex (\<lambda>domain. ends_with lower domain) PADDING_INCOMPATIBLE_DOMAINS)"

definition parse_connect_target :: "rstr \<Rightarrow> (rstr \<times> u16) option" where
  "parse_connect_target request_str =
     (case str_lines request_str of [] \<Rightarrow> None
      | first_line # _ \<Rightarrow>
        let parts = split_whitespace first_line in
        if length parts < 2 \<or> \<not> eq_ignore_ascii_case (parts ! 0) (lit ''CONNECT'') then None
        else
          let target = parts ! 1 in
          case split_char 58 target of [] \<Rightarrow> None
          | host # host_port \<Rightarrow>
            (case parse_u16 (case host_port of [] \<Rightarrow> lit ''443'' | p # _ \<Rightarrow> p) of None \<Rightarrow> None
             | Some port \<Rightarrow> Some (host, port)))"

text \<open>The loop over the lines with their index, until the blank line after the headers.\<close>

fun strip_proxy_lines :: "nat \<Rightarrow> rstr list \<Rightarrow> rstr list" where
  "strip_proxy_lines i [] = []"
| "strip_proxy_lines i (line # rest) =
     (if i = 0 then line # strip_proxy_lines (i + 1) rest
      else if line = [] then [line]
      else case split_once 58 line of
          Some (key, _) \<Rightarrow>
            (if list_ex (\<lambda>h. eq_ignore_ascii_case h (trim key)) PROXY_HEADERS_TO_REMOVE
             then strip_proxy_lines (i + 1) rest
             else line # strip_proxy_lines (i + 1) rest)
        | None \<Rightarrow> line # strip_proxy_lines (i + 1) rest)"

definition strip_proxy_headers :: "rstr \<Rightarrow> rstr" where
  "strip_proxy_headers request_str = join crlf (strip_proxy_lines 0 (str_lines request_str))"

definition apply_connect_space_insertion :: "rstr \<Rightarrow> rstr" where
  "apply_connect_space_insertion request_line =
     (let parts = split_whitespace request_line in
      if length parts \<ge> 3 then parts ! 0 @ lit ''   '' @ parts ! 1 @ lit ''   '' @ parts ! 2
      else if length parts = 2 then parts ! 0 @ lit ''   '' @ parts ! 1
      else request_line)"

definition mix_case :: "rstr \<Rightarrow> rstr" where
  "mix_case s =
     map (\<lambda>(i, c). if i mod 2 = 0 then to_ascii_lowercase c else to_ascii_uppercase c) (enumerate 0 s)"

fun mix_header_lines :: "nat \<Rightarrow> rstr list \<Rightarrow> rstr list" where
  "mix_header_lines i [] = []"
| "mix_header_lines i (line # rest) =
     (if i = 0 then line # mix_header_lines (i + 1) rest
      else if line = [] then [line]
      else case split_once 58 line of
          Some (key, val) \<Rightarrow> (mix_case (trim key) @ [58] @ val) # mix_header_lines (i + 1) rest
        | None \<Rightarrow> line # mix_header_lines (i + 1) rest)"

definition apply_header_case_mixing :: "rstr \<Rightarrow> rstr" where
  "apply_header_case_mixing request_str = join crlf (mix_header_lines 0 (str_lines request_str))"

text \<open>The part of \<open>preprocess_http_request\<close> under \<open>if http_space\<close>.\<close>

definition space_pass :: "rstr \<Rightarrow> rstr" where
  "space_pass processed =
     (let first_line = (case str_lines processed of [] \<Rightarrow> [] | l # _ \<Rightarrow> l);
          modified_line = apply_connect_space_insertion first_line;
          rest = (if contains_str processed crlf then
                    (case split_once_str crlf processed of None \<Rightarrow> [] | Some (_, r) \<Rightarrow> r)
                  else if contains_char processed 10 then
                    (case split_once 10 processed of None \<Rightarrow> [] | Some (_, r) \<Rightarrow> r)
                  else [])
      in if rest = [] then modified_line else modified_line @ crlf @ rest)"

definition preprocess_http_request :: "rstr \<Rightarrow> bool \<Rightarrow> bool \<Rightarrow> rstr" where
  "preprocess_http_request request_str http_space mix_header_case =
     (let processed = strip_proxy_headers request_str;
          processed = (if http_space then space_pass processed else processed);
          processed = (if mix_header_case then apply_header_case_mixing processed else processed)
      in processed)"

fun strip_alt_svc_lines :: "rstr list \<Rightarrow> rstr list" where
  "strip_alt_svc_lines [] = []"
| "strip_alt_svc_lines (line # rest) =
     (case split_once 58 line of
        Some (key, _) \<Rightarrow>
          (if eq_ignore_ascii_case (trim key) (lit ''alt-svc'') then strip_alt_svc_lines rest
           else line # strip_alt_svc_lines rest)
      | None \<Rightarrow> line # strip_alt_svc_lines rest)"

definition strip_alt_svc_headers :: "rstr \<Rightarrow> rstr" where
  "strip_alt_svc_headers response_str = join crlf (strip_alt_svc_lines (str_lines response_str))"

definition ensure_trailing_dot :: "rstr \<Rightarrow> rstr" where
  "ensure_trailing_dot host =
     (if host = [] \<or> ends_with host [46] \<or> parse_ip host \<noteq> None then host else host @ [46])"


section \<open>The contract of the passes over a request\<close>

text \<open>
  The first three words of the request line: the method, the target and the version.
\<close>

definition request_words :: "rstr \<Rightarrow> rstr list" where
  "request_words s = take 3 (split_whitespace (head_line s))"

lemma parse_connect_target_words:
  "parse_connect_target s =
     (case request_words s of
        m # target # _ \<Rightarrow>
          (if eq_ignore_ascii_case m (lit ''CONNECT'') then
             (case split_char 58 target of [] \<Rightarrow> None
              | host # host_port \<Rightarrow>
                (case parse_u16 (case host_port of [] \<Rightarrow> lit ''443'' | p # _ \<Rightarrow> p) of None \<Rightarrow> None
                 | Some port \<Rightarrow> Some (host, port)))
           else None)
      | _ \<Rightarrow> None)"
proof (cases "str_lines s")
  case Nil
  then show ?thesis by (simp add: parse_connect_target_def request_words_def head_line_def)
next
  case (Cons l ls)
  show ?thesis
  proof (cases "split_whitespace l")
    case (Cons a as)
    then show ?thesis
      using \<open>str_lines s = l # ls\<close>
      by (cases as) (simp_all add: parse_connect_target_def request_words_def head_line_def Let_def)
  qed (simp add: Cons parse_connect_target_def request_words_def head_line_def)
qed

lemma head_line_words:
  "split_whitespace s = split_whitespace (head_line s) @
     (case str_lines s of [] \<Rightarrow> [] | _ # _ \<Rightarrow> drop (length (split_whitespace (head_line s))) (split_whitespace s))"
proof (cases "split_once 10 s")
  case None
  then have "10 \<notin> set s" by (simp add: split_once_None)
  then show ?thesis
    by (cases "s = []") (simp_all add: head_line_def str_lines_single)
next
  case (Some p)
  obtain a b where p: "p = (a, b)" by (cases p)
  with Some have s: "s = a @ 10 # b" and a: "10 \<notin> set a"
    by (auto simp: split_once_Some)
  have l: "str_lines s = strip_cr a # str_lines b"
    using Some p s by (subst str_lines.simps) simp
  have "split_whitespace (strip_cr a) = split_whitespace a"
  proof (cases "a \<noteq> [] \<and> last a = 13")
    case True
    then have "a = butlast a @ 13 # []" by (metis append_butlast_last_id)
    then have "split_whitespace a = split_whitespace (butlast a)"
      using split_whitespace_sep [of 13 "butlast a" "[]"] by (simp add: is_whitespace_def)
    with True show ?thesis by (simp add: strip_cr_def)
  qed (auto simp: strip_cr_def)
  moreover have "split_whitespace s = split_whitespace a @ split_whitespace b"
    unfolding s by (rule split_whitespace_sep) (simp add: is_whitespace_def)
  ultimately show ?thesis
    by (simp add: l head_line_def)
qed

text \<open>When the request line has a word, the method test looks at that word only.\<close>

lemma is_http_connect_words:
  assumes "request_words s \<noteq> []"
  shows "is_http_connect s \<longleftrightarrow> eq_ignore_ascii_case (hd (request_words s)) (lit ''CONNECT'')"
proof -
  obtain w ws where w: "split_whitespace (head_line s) = w # ws"
    using assms by (cases "split_whitespace (head_line s)") (auto simp: request_words_def)
  then have "\<exists>vs. split_whitespace s = w # vs"
    using head_line_words [of s] by auto
  with w show ?thesis
    by (auto simp: is_http_connect_def split_whitespace_trim_start request_words_def)
qed

locale request_pass =
  fixes pass :: "rstr \<Rightarrow> rstr"
  assumes keeps_words: "request_words (pass s) = request_words s"
begin

lemma keeps_target: "parse_connect_target (pass s) = parse_connect_target s"
  by (simp add: parse_connect_target_words keeps_words)

lemma keeps_connect: "request_words s \<noteq> [] \<Longrightarrow> is_http_connect (pass s) = is_http_connect s"
  by (simp add: is_http_connect_words keeps_words)

end


section \<open>Each pass is an instance of the contract\<close>

definition is_proxy_header :: "rstr \<Rightarrow> bool" where
  "is_proxy_header line =
     (case split_once 58 line of
        Some (key, _) \<Rightarrow> list_ex (\<lambda>h. eq_ignore_ascii_case h (trim key)) PROXY_HEADERS_TO_REMOVE
      | None \<Rightarrow> False)"

definition mix_line :: "rstr \<Rightarrow> rstr" where
  "mix_line line =
     (case split_once 58 line of Some (key, val) \<Rightarrow> mix_case (trim key) @ [58] @ val | None \<Rightarrow> line)"

text \<open>The loops in terms of \<open>filter\<close> and \<open>map\<close>: the headers end at the first empty line.\<close>

definition until_blank :: "rstr list \<Rightarrow> rstr list" where
  "until_blank ls = takeWhile (\<lambda>l. l \<noteq> []) ls"

definition blank_end :: "rstr list \<Rightarrow> rstr list" where
  "blank_end ls = (if [] \<in> set ls then [[]] else [])"

lemma strip_proxy_lines_spec:
  "0 < i \<Longrightarrow> strip_proxy_lines i ls = filter (\<lambda>l. \<not> is_proxy_header l) (until_blank ls) @ blank_end ls"
  by (induction i ls rule: strip_proxy_lines.induct)
     (auto simp: is_proxy_header_def until_blank_def blank_end_def split: option.splits)

lemma mix_header_lines_spec:
  "0 < i \<Longrightarrow> mix_header_lines i ls = map mix_line (until_blank ls) @ blank_end ls"
  by (induction i ls rule: mix_header_lines.induct)
     (auto simp: mix_line_def until_blank_def blank_end_def split: option.splits)

lemma length_mix_case [simp]: "length (mix_case s) = length s"
  by (simp add: mix_case_def)

lemma mix_case_nth:
  "i < length s \<Longrightarrow> mix_case s ! i = (if i mod 2 = 0 then to_ascii_lowercase (s ! i) else to_ascii_uppercase (s ! i))"
  by (simp add: mix_case_def enumerate_eq_zip)

lemma lower_mix_case: "map to_ascii_lowercase (mix_case s) = map to_ascii_lowercase s"
  by (rule nth_equalityI) (auto simp: mix_case_nth)

lemma mix_case_eq_ignore: "eq_ignore_ascii_case (mix_case s) s"
  by (simp add: eq_ignore_ascii_case_def lower_mix_case)

text \<open>Changing the case of letters touches neither separators nor white space.\<close>

lemma case_keeps_small: "c < 65 \<Longrightarrow> to_ascii_lowercase d = c \<longleftrightarrow> d = c" "c < 65 \<Longrightarrow> to_ascii_uppercase d = c \<longleftrightarrow> d = c"
  by (auto simp: to_ascii_lowercase_def to_ascii_uppercase_def)

lemma case_keeps_whitespace [simp]:
  "is_whitespace (to_ascii_lowercase c) = is_whitespace c"
  "is_whitespace (to_ascii_uppercase c) = is_whitespace c"
  by (auto simp: is_whitespace_def to_ascii_lowercase_def to_ascii_uppercase_def)

lemma mix_case_small: "c < 65 \<Longrightarrow> c \<in> set (mix_case s) \<longleftrightarrow> c \<in> set s"
  by (auto simp: in_set_conv_nth mix_case_nth case_keeps_small split: if_splits) (metis case_keeps_small)+

lemma set_trim: "set (trim s) \<subseteq> set s"
  by (auto simp: trim_def trim_end_def trim_start_def dest!: set_dropWhileD)

lemma set_strip_proxy_lines: "set (strip_proxy_lines i ls) \<subseteq> set ls"
proof (induction ls arbitrary: i)
  case (Cons line rest)
  have "set (strip_proxy_lines (i + 1) rest) \<subseteq> set (line # rest)"
    using Cons [of "i + 1"] by auto
  then show ?case
    by (cases "split_once 58 line") auto
qed simp

lemma lf_free_strip: "lf_free ls \<Longrightarrow> lf_free (strip_proxy_lines i ls)"
  using set_strip_proxy_lines [of i ls] by (auto simp: lf_free_def)

lemma mix_line_lf: "10 \<notin> set line \<Longrightarrow> 10 \<notin> set (mix_line line)"
  using set_trim by (fastforce simp: mix_line_def mix_case_small split_once_Some split: option.splits)

lemma lf_free_mix: "lf_free ls \<Longrightarrow> lf_free (mix_header_lines i ls)"
proof (induction i ls rule: mix_header_lines.induct)
  case (2 i line rest)
  have "10 \<notin> set (mix_line line)"
    using "2.prems" by (intro mix_line_lf) (simp add: lf_free_def)
  with 2 show ?case
    by (auto simp: lf_free_def mix_line_def split: option.splits)
qed simp

interpretation strip: request_pass strip_proxy_headers
proof
  fix s
  show "request_words (strip_proxy_headers s) = request_words s"
    using lf_free_strip [OF lf_free_str_lines [of s], of 0]
    by (cases "str_lines s")
       (simp_all add: request_words_def strip_proxy_headers_def head_line_join head_line_def [of s])
qed

interpretation mix: request_pass apply_header_case_mixing
proof
  fix s
  show "request_words (apply_header_case_mixing s) = request_words s"
    using lf_free_mix [OF lf_free_str_lines [of s], of 0]
    by (cases "str_lines s")
       (simp_all add: request_words_def apply_header_case_mixing_def head_line_join head_line_def [of s])
qed

text \<open>The inserted spaces separate the same words, and add no line break.\<close>

lemma is_word_nth: "i < length (split_whitespace l) \<Longrightarrow> is_word (split_whitespace l ! i)"
  by (rule split_whitespace_words [of _ l]) simp

lemma lit_spaces: "lit ''   '' = [32, 32, 32]"
  by (simp add: lit_def)

lemma is_whitespace_32 [simp]: "is_whitespace 32" "is_whitespace 13" "is_whitespace 10"
  by (simp_all add: is_whitespace_def)

lemma space_insertion_words:
  "take 3 (split_whitespace (apply_connect_space_insertion l)) = take 3 (split_whitespace l)"
proof -
  consider "3 \<le> length (split_whitespace l)" | "length (split_whitespace l) = 2"
    | "\<not> 3 \<le> length (split_whitespace l)" "length (split_whitespace l) \<noteq> 2"
    by blast
  then show ?thesis
  proof cases
    case 1
    then have w: "is_word (split_whitespace l ! i)" if "i < 3" for i
      using that by (intro is_word_nth) simp
    have "take 3 (split_whitespace l) = [split_whitespace l ! 0, split_whitespace l ! 1, split_whitespace l ! 2]"
      using 1 by (intro nth_equalityI) (auto simp: less_Suc_eq numeral_eq_Suc)
    with 1 w [of 0] w [of 1] w [of 2] show ?thesis
      by (simp add: apply_connect_space_insertion_def Let_def lit_spaces)
  next
    case 2
    then have w: "is_word (split_whitespace l ! i)" if "i < 2" for i
      using that by (intro is_word_nth) simp
    have "take 3 (split_whitespace l) = [split_whitespace l ! 0, split_whitespace l ! 1]"
      using 2 by (intro nth_equalityI) (auto simp: less_Suc_eq numeral_eq_Suc)
    with 2 w [of 0] w [of 1] show ?thesis
      by (simp add: apply_connect_space_insertion_def Let_def lit_spaces)
  qed (simp add: apply_connect_space_insertion_def Let_def)
qed

lemma space_insertion_lf: "10 \<notin> set l \<Longrightarrow> 10 \<notin> set (apply_connect_space_insertion l)"
proof -
  assume a: "10 \<notin> set l"
  have "10 \<notin> set (split_whitespace l ! i)" if "i < length (split_whitespace l)" for i
    using is_word_nth [OF that] by (auto simp: is_word_def)
  then have "2 \<le> length (split_whitespace l) \<Longrightarrow> 10 \<notin> set (split_whitespace l ! 0) \<and> 10 \<notin> set (split_whitespace l ! 1)"
    and "3 \<le> length (split_whitespace l) \<Longrightarrow> 10 \<notin> set (split_whitespace l ! 2)"
    by fastforce+
  with a show ?thesis
    by (auto simp: apply_connect_space_insertion_def Let_def lit_spaces)
qed

lemma space_pass_lines:
  "\<exists>rest. str_lines (space_pass t) =
     (if rest = [] then str_lines (apply_connect_space_insertion (head_line t))
      else apply_connect_space_insertion (head_line t) # str_lines rest)"
  using space_insertion_lf [OF head_line_no_lf, of t]
  by (auto simp: space_pass_def Let_def head_line_def [symmetric] str_lines_crlf)

interpretation space: request_pass space_pass
proof
  fix s
  let ?m = "apply_connect_space_insertion (head_line s)"
  obtain rest where "str_lines (space_pass s) = (if rest = [] then str_lines ?m else ?m # str_lines rest)"
    using space_pass_lines by blast
  then have "head_line (space_pass s) = ?m"
    using space_insertion_lf [OF head_line_no_lf, of s]
    by (cases "?m = []") (auto simp: head_line_def [of "space_pass s"] str_lines_single split: if_splits)
  then show "request_words (space_pass s) = request_words s"
    by (simp add: request_words_def space_insertion_words)
qed

interpretation preprocess: request_pass "\<lambda>s. preprocess_http_request s http_space mix_header_case"
  for http_space mix_header_case
  by unfold_locales
     (simp add: preprocess_http_request_def Let_def mix.keeps_words space.keeps_words strip.keeps_words)


section \<open>The headers after preprocessing\<close>

text \<open>The header lines of a request: the lines after the request line, up to the first empty one.\<close>

definition request_headers :: "rstr \<Rightarrow> rstr list" where
  "request_headers s = until_blank (tl (str_lines s))"

lemma until_blank_filter: "until_blank (filter P (until_blank ls)) = filter P (until_blank ls)"
  by (induction ls) (auto simp: until_blank_def)

lemma until_blank_map:
  "(\<And>l. l \<noteq> [] \<Longrightarrow> f l \<noteq> []) \<Longrightarrow> until_blank (map f (until_blank ls)) = map f (until_blank ls)"
  by (induction ls) (auto simp: until_blank_def)

lemma until_blank_append: "[] \<notin> set xs \<Longrightarrow> until_blank (xs @ ys) = xs @ until_blank ys"
  by (induction xs) (auto simp: until_blank_def)

lemma until_blank_idem: "until_blank xs = xs \<Longrightarrow> [] \<notin> set xs"
  by (auto simp: until_blank_def takeWhile_eq_all_conv)

text \<open>Reading back a joined text whose lines are a request line, header lines and maybe the blank line.\<close>

lemma request_headers_join:
  assumes "lf_free (l # hs @ b)" and "until_blank hs = hs" and "b = [] \<or> b = [[]]"
  shows "request_headers (join crlf (l # hs @ b)) = hs"
proof -
  have hs: "[] \<notin> set hs" using assms(2) by (rule until_blank_idem)
  have "tl (str_lines (join crlf (l # hs @ b))) = hs \<or>
      tl (str_lines (join crlf (l # hs @ b))) = hs @ b"
    unfolding str_lines_join [OF assms(1)] using assms(3) hs
    by (cases hs rule: rev_cases) (auto simp: butlast_append)
  then show ?thesis
    using assms(2,3) hs by (auto simp: request_headers_def until_blank_append) (simp add: until_blank_def)
qed

lemma strip_lines_0:
  "str_lines s = l # ls \<Longrightarrow> strip_proxy_lines 0 (str_lines s) =
     l # filter (\<lambda>l. \<not> is_proxy_header l) (until_blank ls) @ blank_end ls"
  by (simp add: strip_proxy_lines_spec)

lemma mix_lines_0:
  "str_lines s = l # ls \<Longrightarrow> mix_header_lines 0 (str_lines s) =
     l # map mix_line (until_blank ls) @ blank_end ls"
  by (simp add: mix_header_lines_spec)

lemma blank_end_cases: "blank_end ls = [] \<or> blank_end ls = [[]]"
  by (simp add: blank_end_def)

lemma mix_line_nonempty: "l \<noteq> [] \<Longrightarrow> mix_line l \<noteq> []"
  by (auto simp: mix_line_def split: option.splits)

lemma request_headers_Nil [simp]: "request_headers [] = []"
  by (simp add: request_headers_def until_blank_def)

lemma headers_strip:
  "request_headers (strip_proxy_headers s) = filter (\<lambda>l. \<not> is_proxy_header l) (request_headers s)"
proof (cases "str_lines s")
  case Nil
  then show ?thesis
    by (simp add: strip_proxy_headers_def request_headers_def until_blank_def)
next
  case (Cons l ls)
  have "lf_free (strip_proxy_lines 0 (str_lines s))"
    by (rule lf_free_strip [OF lf_free_str_lines])
  then show ?thesis
    unfolding strip_proxy_headers_def strip_lines_0 [OF Cons]
    by (subst request_headers_join)
       (simp_all add: until_blank_filter blank_end_cases, simp add: request_headers_def Cons)
qed

lemma headers_mix: "request_headers (apply_header_case_mixing s) = map mix_line (request_headers s)"
proof (cases "str_lines s")
  case Nil
  then show ?thesis
    by (simp add: apply_header_case_mixing_def request_headers_def until_blank_def)
next
  case (Cons l ls)
  have "lf_free (mix_header_lines 0 (str_lines s))"
    by (rule lf_free_mix [OF lf_free_str_lines])
  then show ?thesis
    unfolding apply_header_case_mixing_def mix_lines_0 [OF Cons]
    by (subst request_headers_join)
       (simp_all add: until_blank_map mix_line_nonempty blank_end_cases, simp add: request_headers_def Cons)
qed

lemma split_once_str_crlf: "10 \<notin> set l \<Longrightarrow> split_once_str crlf (l @ crlf @ r) = Some (l, r)"
  by (induction l) (auto simp: crlf_def Cons_eq_append_conv prefix_def append_eq_Cons_conv)

lemma split_once_str_none: "10 \<notin> set l \<Longrightarrow> split_once_str crlf l = None"
  by (induction l) (auto simp: crlf_def prefix_def)

lemma headers_space_join:
  assumes "lf_free ls"
  shows "request_headers (space_pass (join crlf ls)) = request_headers (join crlf ls)"
proof (cases ls)
  case Nil
  then show ?thesis
    by (simp add: space_pass_def Let_def contains_str_def contains_char_def
        apply_connect_space_insertion_def crlf_def)
next
  case (Cons l ms)
  have l: "10 \<notin> set l" using assms Cons by (simp add: lf_free_def)
  let ?m = "apply_connect_space_insertion l"
  have m: "10 \<notin> set ?m" by (rule space_insertion_lf [OF l])
  have hd: "(case str_lines (join crlf ls) of [] \<Rightarrow> [] | a # _ \<Rightarrow> a) = l"
    using head_line_join [OF assms] by (simp add: head_line_def Cons)
  have single: "request_headers x = []" if "10 \<notin> set x" for x
    using that by (cases "x = []") (simp_all add: request_headers_def str_lines_single until_blank_def)
  show ?thesis
  proof (cases ms)
    case Nil
    then have "space_pass (join crlf ls) = ?m"
      using l hd by (simp add: Cons space_pass_def Let_def contains_str_def split_once_str_none contains_char_def)
    then show ?thesis using single [OF m] single [OF l] by (simp add: Cons Nil)
  next
    case (Cons a as)
    let ?r = "join crlf ms"
    have j: "join crlf ls = l @ crlf @ ?r"
      using \<open>ls = l # ms\<close> Cons by (simp add: join_Cons)
    have "space_pass (join crlf ls) = (if ?r = [] then ?m else ?m @ crlf @ ?r)"
      using hd by (simp add: j space_pass_def Let_def contains_str_def split_once_str_crlf [OF l])
    then show ?thesis
      using single [OF m] by (auto simp: j request_headers_def str_lines_crlf [OF m] str_lines_crlf [OF l] until_blank_def)
  qed
qed

lemma headers_space: "request_headers (space_pass (strip_proxy_headers s)) = request_headers (strip_proxy_headers s)"
  unfolding strip_proxy_headers_def by (rule headers_space_join [OF lf_free_strip [OF lf_free_str_lines]])

lemma headers_preprocess:
  "request_headers (preprocess_http_request s http_space mix_header_case) =
     map (if mix_header_case then mix_line else (\<lambda>l. l))
       (filter (\<lambda>l. \<not> is_proxy_header l) (request_headers s))"
  by (simp add: preprocess_http_request_def Let_def headers_mix headers_space headers_strip)

text \<open>Mixing the case neither hides nor creates a tracking header.\<close>

lemma trim_trim_ends:
  "trim s = s \<longleftrightarrow> s = [] \<or> (\<not> is_whitespace (hd s) \<and> \<not> is_whitespace (last s))"
proof
  assume "s = [] \<or> (\<not> is_whitespace (hd s) \<and> \<not> is_whitespace (last s))"
  then show "trim s = s"
  proof
    assume a: "\<not> is_whitespace (hd s) \<and> \<not> is_whitespace (last s)"
    then have "trim_start s = s"
      by (cases s) (auto simp: trim_start_def)
    moreover have "trim_end s = s"
      using a by (cases s rule: rev_cases) (auto simp: trim_end_def)
    ultimately show ?thesis by (simp add: trim_def)
  qed (simp add: trim_def trim_end_def trim_start_def)
next
  assume t: "trim s = s"
  show "s = [] \<or> (\<not> is_whitespace (hd s) \<and> \<not> is_whitespace (last s))"
  proof (cases "s = []")
    case False
    have ls: "length (trim_end u) \<le> length u" for u
      using length_dropWhile_le [of is_whitespace "rev u"] by (simp add: trim_end_def)
    have "length (trim_start s) = length s"
      using ls [of "trim_start s"] length_dropWhile_le [of is_whitespace s] arg_cong [OF t, of length]
      unfolding trim_def trim_start_def by linarith
    then have st: "trim_start s = s"
      by (simp add: trim_start_def) (metis dropWhile_eq_drop drop_all drop_eq_Nil drop_0 length_drop
          diff_diff_cancel length_takeWhile_le diff_self_eq_0)
    then have h: "\<not> is_whitespace (hd s)"
      using False by (metis hd_dropWhile trim_start_def)
    from t st have "dropWhile is_whitespace (rev s) = rev s"
      by (metis rev_rev_ident trim_def trim_end_def)
    then have "\<not> is_whitespace (hd (rev s))"
      using False by (metis hd_dropWhile rev_is_Nil_conv)
    with h False show ?thesis by (simp add: hd_rev)
  qed simp
qed

lemma dropWhile_idem: "dropWhile P (dropWhile P xs) = dropWhile P xs"
  by (induction xs) auto

lemma trim_idem: "trim (trim s) = trim s"
proof -
  have d: "dropWhile is_whitespace (rev (dropWhile is_whitespace t)) \<noteq> [] \<longrightarrow>
      \<not> is_whitespace (last (dropWhile is_whitespace (rev (dropWhile is_whitespace t))))" for t
  proof -
    let ?u = "dropWhile is_whitespace t"
    obtain xs where "rev ?u = xs @ dropWhile is_whitespace (rev ?u)"
      by (metis takeWhile_dropWhile_id)
    then have "dropWhile is_whitespace (rev ?u) \<noteq> [] \<Longrightarrow>
        last (dropWhile is_whitespace (rev ?u)) = hd ?u \<and> ?u \<noteq> []"
      by (metis last_appendR last_rev append_is_Nil_conv rev_is_Nil_conv)
    then show ?thesis by (metis hd_dropWhile)
  qed
  show ?thesis
    using d [of s] hd_dropWhile [of is_whitespace "rev (dropWhile is_whitespace s)"]
    unfolding trim_trim_ends by (auto simp: trim_def trim_end_def trim_start_def hd_rev last_rev)
qed

lemma mix_case_ends:
  assumes "s \<noteq> []"
  shows "is_whitespace (hd (mix_case s)) = is_whitespace (hd s)"
    and "is_whitespace (last (mix_case s)) = is_whitespace (last s)"
proof -
  have n: "mix_case s \<noteq> []" using assms by (metis length_0_conv length_mix_case)
  show "is_whitespace (hd (mix_case s)) = is_whitespace (hd s)"
    using assms n by (simp add: hd_conv_nth mix_case_nth)
  show "is_whitespace (last (mix_case s)) = is_whitespace (last s)"
    using assms n by (simp add: last_conv_nth mix_case_nth)
qed

lemma trim_mix_case: "trim (mix_case (trim k)) = mix_case (trim k)"
  using trim_idem [of k] mix_case_ends [of "trim k"] unfolding trim_trim_ends
  by (cases "trim k = []") (auto simp: mix_case_def)

lemma eq_ignore_mix: "eq_ignore_ascii_case h (mix_case k) = eq_ignore_ascii_case h k"
  by (simp add: eq_ignore_ascii_case_def lower_mix_case)

lemma is_proxy_header_mix: "is_proxy_header (mix_line l) = is_proxy_header l"
proof (cases "split_once 58 l")
  case None
  then show ?thesis by (simp add: mix_line_def)
next
  case (Some p)
  obtain key val where p: "p = (key, val)" by (cases p)
  with Some have "58 \<notin> set key" by (simp add: split_once_Some)
  then have "58 \<notin> set (mix_case (trim key))"
    using set_trim by (auto simp: mix_case_small)
  then have "split_once 58 (mix_line l) = Some (mix_case (trim key), val)"
    using Some p by (simp add: mix_line_def split_once_append)
  with Some p show ?thesis
    by (simp add: is_proxy_header_def trim_mix_case eq_ignore_mix)
qed


section \<open>The CONNECT target, the trailing dot and the domain filter\<close>

lemma split_char_word: "d \<notin> set w \<Longrightarrow> split_char d w = [w]"
  by (auto simp: split_char_def intro: split_by_word)

lemma split_char_sep: "d \<notin> set w \<Longrightarrow> split_char d (w @ d # s) = w # split_char d s"
  by (auto simp: split_char_def intro: split_by_word_sep)

lemma split_char_no_sep: "w \<in> set (split_char d s) \<Longrightarrow> d \<notin> set w"
  by (auto simp: split_char_def dest: split_by_no_sep)

lemma split_by_subset: "w \<in> set (split_by P s) \<Longrightarrow> set w \<subseteq> set s"
proof (induction s arbitrary: w)
  case (Cons c s)
  obtain v vs where v: "split_by P s = v # vs"
    by (metis list.exhaust split_by_not_Nil)
  with Cons.IH [of v] Cons.IH [of w] Cons.prems show ?case
    by (auto split: if_splits)
qed simp

lemma connect_target_host:
  assumes "parse_connect_target s = Some (host, port)"
  shows "58 \<notin> set host" and "\<forall>c \<in> set host. \<not> is_whitespace c"
proof -
  from assms obtain m target ws rest where w: "request_words s = m # target # ws" "split_char 58 target = host # rest"
    unfolding parse_connect_target_words by (auto split: list.splits if_splits option.splits)
  then show "58 \<notin> set host"
    using split_char_no_sep [of host 58 target] by simp
  have "target \<in> set (split_whitespace (head_line s))"
    using w(1) in_set_takeD [of target 3] by (simp add: request_words_def)
  then have "is_word target" by (rule split_whitespace_words)
  moreover have "set host \<subseteq> set target"
    using w(2) split_by_subset [of host "\<lambda>c. c = 58" target] by (simp add: split_char_def)
  ultimately show "\<forall>c \<in> set host. \<not> is_whitespace c"
    by (auto simp: is_word_def)
qed

definition connect_request :: "rstr \<Rightarrow> rstr" where
  "connect_request target = lit ''CONNECT '' @ target @ lit '' HTTP/1.1'' @ crlf"

lemma connect_request_words:
  assumes "is_word target"
  shows "request_words (connect_request target @ rest) = [lit ''CONNECT'', target, lit ''HTTP/1.1'']"
proof -
  let ?l = "lit ''CONNECT'' @ 32 # target @ 32 # lit ''HTTP/1.1''"
  have e: "connect_request target @ rest = ?l @ crlf @ rest"
    by (simp add: connect_request_def lit_def)
  have "10 \<notin> set ?l"
    using assms by (auto simp: is_word_def lit_def)
  then have "head_line (connect_request target @ rest) = ?l"
    unfolding e head_line_def str_lines_crlf [OF \<open>10 \<notin> set ?l\<close>] by simp
  moreover have "is_word (lit ''CONNECT'')" "is_word (lit ''HTTP/1.1'')"
    by code_simp+
  ultimately show ?thesis
    using assms by (simp add: request_words_def)
qed

lemma show_int_chars:
  assumes "0 \<le> n" and "c \<in> set (show_int n)"
  shows "c \<noteq> 58" and "\<not> is_whitespace c"
proof -
  have "is_digit c"
    using assms show_int_digits [of n] by (auto simp: list_all_iff)
  then show "c \<noteq> 58" and "\<not> is_whitespace c"
    by (auto simp: is_digit_def is_whitespace_def)
qed

lemma connect_roundtrip_port:
  assumes "58 \<notin> set host" and "\<forall>c \<in> set host. \<not> is_whitespace c"
  shows "parse_connect_target (connect_request (host @ [58] @ show_int (uint (p :: u16))) @ rest) = Some (host, p)"
proof -
  let ?t = "host @ [58] @ show_int (uint p)"
  have n: "0 \<le> uint p" by simp
  have "is_word ?t"
    using assms show_int_chars [OF n] by (auto simp: is_word_def is_whitespace_def)
  moreover have "split_char 58 ?t = [host, show_int (uint p)]"
    using assms(1) show_int_chars [OF n] split_char_word [of 58 "show_int (uint p)"]
    by (auto simp: split_char_sep)
  ultimately show ?thesis
    by (simp add: parse_connect_target_words connect_request_words parse_u16_show)
qed

lemma connect_roundtrip_default:
  assumes "host \<noteq> []" and "58 \<notin> set host" and "\<forall>c \<in> set host. \<not> is_whitespace c"
  shows "parse_connect_target (connect_request host @ rest) = Some (host, 443)"
proof -
  have "parse_u16 (lit ''443'') = Some 443" by code_simp
  moreover have "is_word host" using assms by (simp add: is_word_def)
  ultimately show ?thesis
    using assms by (simp add: parse_connect_target_words connect_request_words split_char_word)
qed

lemma ensure_trailing_dot_cases:
  "ensure_trailing_dot host = host \<and> (host = [] \<or> ends_with host [46] \<or> parse_ip host \<noteq> None) \<or>
   ensure_trailing_dot host = host @ [46]"
  by (auto simp: ensure_trailing_dot_def)

lemma ends_with_snoc [simp]: "ends_with (s @ [c]) [d] \<longleftrightarrow> c = d"
  by (simp add: ends_with_def suffix_def)

lemma ends_with_last: "ends_with s p \<Longrightarrow> p \<noteq> [] \<Longrightarrow> s \<noteq> [] \<and> last s = last p"
  by (auto simp: ends_with_def suffix_def)

lemma padding_domains_last: "d \<in> set PADDING_INCOMPATIBLE_DOMAINS \<Longrightarrow> d \<noteq> [] \<and> last d \<noteq> 46"
  by (auto simp: PADDING_INCOMPATIBLE_DOMAINS_def lit_def)

lemma dotted_host_not_padding_incompatible:
  assumes "is_ascii host" and "host = [] \<or> last host = 46"
  shows "\<not> is_padding_incompatible_domain uc host"
proof
  assume "is_padding_incompatible_domain uc host"
  then obtain d where d: "d \<in> set PADDING_INCOMPATIBLE_DOMAINS" "ends_with (map to_ascii_lowercase host) d"
    using assms(1) by (auto simp: is_padding_incompatible_domain_def Let_def to_lowercase_def list_ex_iff)
  with padding_domains_last [OF d(1)] ends_with_last [OF d(2)]
  have "host \<noteq> []" "last (map to_ascii_lowercase host) \<noteq> 46" by auto
  with assms(2) show False
    by (auto simp: last_map to_ascii_lowercase_def)
qed

lemma trailing_dot_last:
  "parse_ip host = None \<Longrightarrow> ensure_trailing_dot host = [] \<or> last (ensure_trailing_dot host) = 46"
  using ends_with_last [of host "[46]"] by (auto simp: ensure_trailing_dot_def)

lemma trailing_dot_ascii: "is_ascii host \<Longrightarrow> is_ascii (ensure_trailing_dot host)"
  by (simp add: ensure_trailing_dot_def is_ascii_def)

lemma trailing_dot_trim: "trim_end_matches 46 (ensure_trailing_dot host) = trim_end_matches 46 host"
  by (simp add: ensure_trailing_dot_def)

definition is_alt_svc_header :: "rstr \<Rightarrow> bool" where
  "is_alt_svc_header line =
     (case split_once 58 line of
        Some (key, _) \<Rightarrow> eq_ignore_ascii_case (trim key) (lit ''alt-svc'') | None \<Rightarrow> False)"

lemma strip_alt_svc_lines_filter: "strip_alt_svc_lines ls = filter (\<lambda>l. \<not> is_alt_svc_header l) ls"
  by (induction ls) (auto simp: is_alt_svc_header_def split: option.splits)

lemma strip_alt_svc_lines_out: "set (str_lines (strip_alt_svc_headers r)) \<subseteq> {l \<in> set (str_lines r). \<not> is_alt_svc_header l}"
proof -
  have "lf_free (strip_alt_svc_lines (str_lines r))"
    using lf_free_str_lines [of r] by (auto simp: strip_alt_svc_lines_filter lf_free_def)
  from str_lines_join [OF this] show ?thesis
    unfolding strip_alt_svc_headers_def
    by (auto simp: strip_alt_svc_lines_filter split: if_splits dest: in_set_butlastD)
qed


lemma ipv6_misread:
  assumes "58 \<notin> set a" and "58 \<notin> set b" and "list_all (\<lambda>c. \<not> is_whitespace c) (a @ b @ rest)"
  shows "parse_connect_target (connect_request (91 # a @ 58 # b @ 58 # rest) @ tail) =
    map_option (\<lambda>port. (91 # a, port)) (parse_u16 b)"
proof -
  have "is_word (91 # a @ 58 # b @ 58 # rest)"
    using assms(3) by (auto simp: is_word_def is_whitespace_def list_all_iff)
  moreover have "split_char 58 (91 # a @ 58 # b @ 58 # rest) = (91 # a) # b # split_char 58 rest"
    using split_char_sep [of 58 "91 # a" "b @ 58 # rest"] split_char_sep [of 58 b rest] assms(1,2) by simp
  ultimately show ?thesis
    by (simp add: parse_connect_target_words connect_request_words split: option.splits)
qed


section \<open>Properties\<close>

text \<open>
  C27: Cleaning the request never changes where it connects to: for every request text and
  every setting of the two switches, the target parsed from the cleaned request is the target
  parsed from the original.
\<close>

theorem preprocess_keeps_target:
  "parse_connect_target (preprocess_http_request s http_space mix_header_case) = parse_connect_target s"
  by (rule preprocess.keeps_target)

text \<open>
  Cleaning the request never changes the dispatch either, as long as the request line is
  not blank: the cleaned text is a CONNECT request exactly when the original is.
\<close>

lemma preprocess_keeps_connect:
  assumes "request_words s \<noteq> []"
  shows "is_http_connect (preprocess_http_request s http_space mix_header_case) = is_http_connect s"
  using assms by (rule preprocess.keeps_connect)

lemma preprocess_keeps_connect_example:
  "is_http_connect (preprocess_http_request (connect_request (lit ''a.b:443'')) True True) =
   is_http_connect (connect_request (lit ''a.b:443''))"
proof (rule preprocess_keeps_connect)
  show "request_words (connect_request (lit ''a.b:443'')) \<noteq> []"
    by code_simp
qed

text \<open>
  C26: The header lines of the cleaned request are those of the original, in order, without
  the tracking headers and, under the case switch, with mixed-case keys; so no tracking header
  is left, whatever the case and the spaces of its key in the original.
\<close>

theorem preprocess_headers:
  "request_headers (preprocess_http_request s http_space mix_header_case) =
     map (if mix_header_case then mix_line else (\<lambda>l. l))
       (filter (\<lambda>l. \<not> is_proxy_header l) (request_headers s)) \<and>
   list_all (\<lambda>l. \<not> is_proxy_header l)
     (request_headers (preprocess_http_request s http_space mix_header_case))"
  by (simp add: headers_preprocess list_all_iff is_proxy_header_mix)

text \<open>
  C28: Reading back a CONNECT request: any host without colon and white space and any port,
  printed in the standard form, are the parsed target; without a port it is 443.
\<close>

theorem connect_target_roundtrip:
  assumes "host \<noteq> []" and "58 \<notin> set host" and "\<forall>c \<in> set host. \<not> is_whitespace c"
  shows "parse_connect_target (connect_request (host @ [58] @ show_int (uint (p :: u16))) @ rest) = Some (host, p) \<and>
         parse_connect_target (connect_request host @ rest) = Some (host, 443)"
  using connect_roundtrip_port [OF assms(2,3)] connect_roundtrip_default [OF assms] by simp

theorem connect_target_roundtrip_witness:
  "parse_connect_target (connect_request (lit ''a.b'' @ [58] @ show_int (uint (8443 :: u16))) @ lit ''X: y'') =
     Some (lit ''a.b'', 8443) \<and>
   parse_connect_target (connect_request (lit ''a.b'') @ lit ''X: y'') = Some (lit ''a.b'', 443)"
  by (rule connect_target_roundtrip) code_simp+

text \<open>
  C29: The target is split at every colon, so an IPv6 literal, which a CONNECT request must write in
  brackets, is misread: the host is the bracket with the first group, the port is the second group read as a
  decimal number, and the port of the request is never looked at. When the group is no number the request
  is refused; otherwise the proxy goes looking for a host of this name.
\<close>

theorem ipv6_target_misread:
  assumes "58 \<notin> set a" and "58 \<notin> set b" and "list_all (\<lambda>c. \<not> is_whitespace c) (a @ b @ rest)"
  shows "parse_connect_target (connect_request (lit ''['' @ a @ lit '':'' @ b @ lit '':'' @ rest) @ tail) =
    map_option (\<lambda>port. (lit ''['' @ a, port)) (parse_u16 b)"
  using ipv6_misread [OF assms] by (simp add: lit_def)

theorem ipv6_target_misread_witness:
  "parse_connect_target (connect_request (lit ''['' @ lit ''2001'' @ lit '':'' @ lit ''470'' @ lit '':'' @
     lit '':1]:443'') @ crlf) = map_option (\<lambda>port. (lit ''['' @ lit ''2001'', port)) (parse_u16 (lit ''470'')) \<and>
   parse_u16 (lit ''470'') = Some 470"
proof
  show "parse_connect_target (connect_request (lit ''['' @ lit ''2001'' @ lit '':'' @ lit ''470'' @ lit '':'' @
     lit '':1]:443'') @ crlf) = map_option (\<lambda>port. (lit ''['' @ lit ''2001'', port)) (parse_u16 (lit ''470''))"
    by (rule ipv6_target_misread) code_simp+
  show "parse_u16 (lit ''470'') = Some 470" by code_simp
qed

text \<open>
  A parsed host name has no colon and no white space, so it cannot smuggle a second port
  or a line break into the lookups it is used in.
\<close>

lemma connect_target_host_clean:
  assumes "parse_connect_target s = Some (host, port)"
  shows "58 \<notin> set host \<and> list_all (\<lambda>c. \<not> is_whitespace c) host"
  using connect_target_host [OF assms] by (simp add: list_all_iff)

lemma connect_target_host_clean_example:
  "58 \<notin> set (lit ''a.b'') \<and> list_all (\<lambda>c. \<not> is_whitespace c) (lit ''a.b'')"
proof (rule connect_target_host_clean)
  show "parse_connect_target (connect_request (lit ''a.b:80:81'')) = Some (lit ''a.b'', 80)"
    by code_simp
qed

text \<open>
  Mixing the case changes nothing but the case of ASCII letters: the length is kept and
  the text is the same up to ASCII case, so a case-insensitive reader sees the same header key.
\<close>

lemma mix_case_only_case:
  "length (mix_case s) = length s \<and> eq_ignore_ascii_case (mix_case s) s \<and> mix_case (mix_case s) = mix_case s"
proof -
  have "to_ascii_lowercase (to_ascii_lowercase c) = to_ascii_lowercase c"
    "to_ascii_uppercase (to_ascii_uppercase c) = to_ascii_uppercase c" for c
    by (simp_all add: to_ascii_lowercase_def to_ascii_uppercase_def)
  then have "mix_case (mix_case s) = mix_case s"
    by (intro nth_equalityI) (auto simp: mix_case_nth)
  then show ?thesis by (simp add: mix_case_eq_ignore)
qed

text \<open>
  The trailing dot is added at most once, and the resolver, which strips trailing dots,
  sees the same name with and without it.
\<close>

lemma trailing_dot_idempotent:
  "ensure_trailing_dot (ensure_trailing_dot host) = ensure_trailing_dot host \<and>
   trim_end_matches 46 (ensure_trailing_dot host) = trim_end_matches 46 host"
  by (simp add: trailing_dot_trim) (auto simp: ensure_trailing_dot_def)

text \<open>
  C35: Once the trailing dot is added, the filter for the Meta domains never applies: for every
  ASCII host name that is not an IP literal, the dotted name is not padding incompatible,
  although the plain name may be.
\<close>

theorem trailing_dot_defeats_domain_filter:
  assumes "is_ascii host" and "parse_ip host = None"
  shows "\<not> is_padding_incompatible_domain uc (ensure_trailing_dot host)"
  using dotted_host_not_padding_incompatible [OF trailing_dot_ascii [OF assms(1)] trailing_dot_last [OF assms(2)]] .

theorem trailing_dot_defeats_domain_filter_witness:
  "\<not> is_padding_incompatible_domain (\<lambda>s. s) (ensure_trailing_dot (lit ''www.instagram.com'')) \<and>
   is_padding_incompatible_domain (\<lambda>s. s) (lit ''www.instagram.com'')"
proof
  show "\<not> is_padding_incompatible_domain (\<lambda>s. s) (ensure_trailing_dot (lit ''www.instagram.com''))"
    by (rule trailing_dot_defeats_domain_filter) code_simp+
  show "is_padding_incompatible_domain (\<lambda>s. s) (lit ''www.instagram.com'')"
    by code_simp
qed

text \<open>
  Stripping \<open>Alt-Svc\<close> keeps exactly the other lines, in order, and leaves no line whose key
  is \<open>alt-svc\<close> in any case.
\<close>

lemma alt_svc_stripped:
  "strip_alt_svc_headers r = join crlf (filter (\<lambda>l. \<not> is_alt_svc_header l) (str_lines r)) \<and>
   list_all (\<lambda>l. \<not> is_alt_svc_header l) (str_lines (strip_alt_svc_headers r))"
  using strip_alt_svc_lines_out [of r]
  by (auto simp: strip_alt_svc_headers_def strip_alt_svc_lines_filter list_all_iff)

end
