(* ===== verification/Proxy.thy ===== *)
theory Proxy
  imports Net_Send Dns_Client Utils
begin

text \<open>
  \<^verbatim>\<open>src/proxy.rs\<close>: the handlers of one client connection. Each handler is one definition with
  the early returns, the order of the calls and the discarded results of the code; the calls are
  those of the theories \<open>Net_Io\<close>, \<open>Net_Send\<close> and \<open>Dns_Client\<close>. The parameter \<open>uc\<close> is the
  lower-casing of text that is not ASCII. Log lines are left out.
\<close>

section \<open>Constants and configuration\<close>

definition CLIENT_BUF_SIZE :: nat where
  "CLIENT_BUF_SIZE = 2048"

definition CLIENT_HELLO_BUF_SIZE :: nat where
  "CLIENT_HELLO_BUF_SIZE = 4096"

definition BIND_ZERO_V4 :: socket_addr where
  "BIND_ZERO_V4 = \<lparr>sa_ip = V4 0 0 0 0, sa_port = 0\<rparr>"

definition BIND_ZERO_V6 :: socket_addr where
  "BIND_ZERO_V6 = \<lparr>sa_ip = V6 [0, 0, 0, 0, 0, 0, 0, 0], sa_port = 0\<rparr>"

definition HTTP_200_ESTABLISHED :: bytes where
  "HTTP_200_ESTABLISHED = utf8 (lit ''HTTP/1.1 200 Connection Established'' @ crlf @ crlf)"

definition HTTP_400_BAD_REQUEST :: bytes where
  "HTTP_400_BAD_REQUEST = utf8 (lit ''HTTP/1.1 400 Bad Request'' @ crlf @ crlf)"

definition HTTP_403_FORBIDDEN :: bytes where
  "HTTP_403_FORBIDDEN = utf8 (lit ''HTTP/1.1 403 Forbidden'' @ crlf @ crlf)"

definition HTTP_502_BAD_GATEWAY :: bytes where
  "HTTP_502_BAD_GATEWAY = utf8 (lit ''HTTP/1.1 502 Bad Gateway'' @ crlf @ crlf)"

definition nginx_headers :: rstr where
  "nginx_headers =
     lit ''HTTP/1.1 404 Not Found'' @ crlf @ lit ''Server: nginx'' @ crlf @
     lit ''Content-Type: text/html'' @ crlf @ lit ''Content-Length: 153'' @ crlf @
     lit ''Connection: close'' @ crlf @ crlf"

definition nginx_body :: rstr where
  "nginx_body =
     lit ''<html>'' @ crlf @ lit ''<head><title>404 Not Found</title></head>'' @ crlf @
     lit ''<body>'' @ crlf @ lit ''<center><h1>404 Not Found</h1></center>'' @ crlf @
     lit ''<hr><center>nginx</center>'' @ crlf @ lit ''</body>'' @ crlf @ lit ''</html>'' @ crlf"

definition BENIGN_NGINX_404_RESPONSE :: bytes where
  "BENIGN_NGINX_404_RESPONSE = utf8 (nginx_headers @ nginx_body)"

definition HTTP_301_PREFIX :: bytes where
  "HTTP_301_PREFIX = utf8 (lit ''HTTP/1.1 301 Moved Permanently'' @ crlf @ lit ''Location: https://'')"

definition HTTP_301_SUFFIX :: bytes where
  "HTTP_301_SUFFIX = utf8 (crlf @ lit ''Content-Length: 0'' @ crlf @ lit ''Connection: close'' @ crlf @ crlf)"

record proxy_config =
  bind_addr :: socket_addr
  config_dns_addr :: rstr
  fake_ttl :: "32 word"
  fake_sni :: rstr
  window_shrink :: nat
  http_space :: bool
  mix_header_case :: bool
  strip_alt_svc :: bool
  port_rotate :: bool
  trailing_dot :: bool
  filter_type65 :: bool
  fallback_target :: rstr


section \<open>Pure helpers of the tunnel\<close>

definition extract_first_tls_record :: "bytes \<Rightarrow> (bytes \<times> bytes) rust" where
  "extract_first_tls_record raw_bytes =
     bindR (is_client_hello raw_bytes) (\<lambda>hello.
     if hello then
       bindR (read_u16 raw_bytes 3) (\<lambda>len.
       let payload_len = unat (case len of None \<Rightarrow> 0 | Some n \<Rightarrow> n);
           rec_len = TLS_RECORD_HEADER_SIZE + payload_len in
       if rec_len > TLS_RECORD_HEADER_SIZE \<and> length raw_bytes > rec_len then
         bindR (slice_to raw_bytes rec_len) (\<lambda>record.
         bindR (slice_from raw_bytes rec_len) (\<lambda>rest.
         Val (record, rest)))
       else Val (raw_bytes, []))
     else Val (raw_bytes, []))"

text \<open>\<open>str::get(..n)\<close>: the text of the first \<open>n\<close> bytes, if they end at a character boundary.\<close>

fun str_get_to :: "nat \<Rightarrow> rstr \<Rightarrow> rstr option" where
  "str_get_to n [] = (if n = 0 then Some [] else None)"
| "str_get_to n (c # cs) =
     (let k = length (utf8_char c) in
      if n = 0 then Some []
      else if n < k then None
      else map_option ((#) c) (str_get_to (n - k) cs))"

definition calculate_sni_cut_offset :: "env \<Rightarrow> nat \<Rightarrow> rstr \<Rightarrow> nat io" where
  "calculate_sni_cut_offset env hostname_len host =
     (if hostname_len > 6 then
        let start_offset =
              (case str_get_to 4 host of
                 None \<Rightarrow> 0
               | Some s \<Rightarrow> if eq_ignore_ascii_case s (lit ''www.'') then 4 else 0);
            domain_len = hostname_len - start_offset;
            mid = start_offset + domain_len div 2;
            min_cut = max (mid - 1) (start_offset + 2) in
        bindI (liftR (sub_checked hostname_len 2)) (\<lambda>last.
        let max_cut = min (mid + 1) last in
        if min_cut \<le> max_cut then random_range env min_cut max_cut
        else okI (hostname_len div 2))
      else okI (hostname_len div 2))"


section \<open>The handlers\<close>

definition tunnel_bidirectional :: "env \<Rightarrow> unit io" where
  "tunnel_bidirectional env = copy_bidirectional env Client Remote"

definition connect_remote_socket :: "env \<Rightarrow> socket_addr \<Rightarrow> proxy_config \<Rightarrow> unit io" where
  "connect_remote_socket env remote_addr config =
     bindI (tcp_open env Remote (is_ipv6 (sa_ip remote_addr))) (\<lambda>_.
     bindI (set_option env Remote Reuseaddr) (\<lambda>_.
     bindI (if port_rotate config
            then set_option env Remote (Bound (if is_ipv6 (sa_ip remote_addr) then BIND_ZERO_V6 else BIND_ZERO_V4))
            else okI ()) (\<lambda>_.
     bindI (tcp_connect env Remote remote_addr) (\<lambda>_.
     bindI (set_option env Remote Nodelay) (\<lambda>_.
     bindI (set_option env Client (Keepalive 60)) (\<lambda>_.
     bindI (set_option env Remote (Keepalive 60)) (\<lambda>_.
     if window_shrink config > 0 then
       let safe_win = max (window_shrink config) 4096 in
       bindI (set_option env Remote (Recv_Buffer safe_win)) (\<lambda>_.
       set_option env Remote (Send_Buffer safe_win))
     else okI ())))))))"

definition inject_fake_ttl_probe :: "env \<Rightarrow> socket_addr \<Rightarrow> rstr \<Rightarrow> 32 word \<Rightarrow> unit io" where
  "inject_fake_ttl_probe env peer_addr sni ttl =
     bindI (attempt (tcp_connect env Probe peer_addr)) (\<lambda>stream. case stream of
        Inl _ \<Rightarrow> okI ()
      | Inr _ \<Rightarrow>
          bindI (set_option env Probe (Ttl ttl)) (\<lambda>_.
          let fake_hello = build_synthetic_client_hello (Some (utf8 sni)) False in
          bindI (attempt (tcp_write_all env Probe fake_hello)) (\<lambda>_.
          bindI (attempt (tcp_flush env Probe)) (\<lambda>_. okI ()))))"

definition handle_plaintext_redirect :: "env \<Rightarrow> rstr \<Rightarrow> unit io" where
  "handle_plaintext_redirect env request_str =
     (let first_line = (case str_lines request_str of [] \<Rightarrow> [] | l # _ \<Rightarrow> l);
          words = split_whitespace first_line;
          target_path = (if 1 < length words then words ! 1 else []);
          host_val = (case strip_prefix_str (lit ''http://'') target_path of None \<Rightarrow> target_path | Some r \<Rightarrow> r);
          clean_host = (case split_char 47 host_val of [] \<Rightarrow> host_val | h # _ \<Rightarrow> h) in
      write_all_vectored env Client [HTTP_301_PREFIX, utf8 clean_host, HTTP_301_SUFFIX])"

definition handle_active_probe_defense :: "env \<Rightarrow> unit io" where
  "handle_active_probe_defense env =
     bindI (attempt (tcp_write_all env Client BENIGN_NGINX_404_RESPONSE)) (\<lambda>_. okI ())"


text \<open>The address of the target: the resolver's, or else the first one of the system lookup.\<close>

definition find_remote_ip :: "env \<Rightarrow> dns_resolver \<Rightarrow> rstr \<Rightarrow> u16 \<Rightarrow> ip_addr option io" where
  "find_remote_ip env resolver host port =
     bindI (resolve env resolver host) (\<lambda>resolved. case resolved of
        Some ip \<Rightarrow> okI (Some ip)
      | None \<Rightarrow>
          bindI (attempt (lookup_host env (host @ lit '':'' @ show_int (uint port)))) (\<lambda>found. case found of
             Inr addrs \<Rightarrow> (case addrs of addr # _ \<Rightarrow> okI (Some (sa_ip addr)) | [] \<Rightarrow> okI None)
           | Inl _ \<Rightarrow> okI None))"

text \<open>
  From the first bytes of the client on: the probe, the split and the tunnel. Without a split the
  bytes of the first record go out in random segments.
\<close>

definition relay_client_hello :: "env \<Rightarrow> proxy_config \<Rightarrow> rstr \<Rightarrow> socket_addr \<Rightarrow> bool \<Rightarrow> bytes \<Rightarrow> unit io" where
  "relay_client_hello env config host remote_addr is_meta raw_bytes =
     bindI (if fake_ttl config > 0 \<and> fake_sni config \<noteq> [] \<and> \<not> is_meta then
              bindI (liftR (is_client_hello raw_bytes)) (\<lambda>hello.
              if hello then inject_fake_ttl_probe env remote_addr (fake_sni config) (fake_ttl config)
              else okI ())
            else okI ()) (\<lambda>_.
     bindI (liftR (extract_first_tls_record raw_bytes)) (\<lambda>(raw_ch, trailing_data).
     let fallback = bindI (split_and_write env raw_ch Remote) (\<lambda>_. tunnel_bidirectional env) in
     bindI (liftR (find_sni_info raw_ch)) (\<lambda>sni. case sni of
        Some info \<Rightarrow>
          if hostname_length info > 4 then
            bindI (calculate_sni_cut_offset env (hostname_length info) host) (\<lambda>cut_in_sni.
            let split_point = hostname_offset info + cut_in_sni in
            if split_point > TLS_RECORD_HEADER_SIZE \<and> split_point < length raw_ch then
              bindI (liftR (fragment_at_offset raw_ch split_point)) (\<lambda>(rec1, rec2).
              bindI (transmit_tls_records env Remote rec1 rec2 trailing_data is_meta) (\<lambda>_.
              tunnel_bidirectional env))
            else fallback)
          else fallback
      | None \<Rightarrow> fallback)))"

text \<open>The loopback and unspecified addresses are never connected to.\<close>

definition is_local_ip :: "ip_addr \<Rightarrow> bool" where
  "is_local_ip ip \<longleftrightarrow> is_loopback ip \<or> is_unspecified ip"

definition handle_connect_tunnel ::
  "(rstr \<Rightarrow> rstr) \<Rightarrow> env \<Rightarrow> dns_resolver \<Rightarrow> proxy_config \<Rightarrow> rstr \<Rightarrow> unit io" where
  "handle_connect_tunnel uc env resolver config cleaned_request =
     (case parse_connect_target cleaned_request of
        None \<Rightarrow> tcp_write_all env Client HTTP_400_BAD_REQUEST
      | Some (raw_host, port) \<Rightarrow>
          let clean_raw = trim_end_matches 46 raw_host in
          if eq_ignore_ascii_case clean_raw (lit ''localhost'') \<or>
             (case parse_ip clean_raw of None \<Rightarrow> False | Some ip \<Rightarrow> is_local_ip ip)
          then tcp_write_all env Client HTTP_403_FORBIDDEN
          else
            let host = (if trailing_dot config then ensure_trailing_dot raw_host else raw_host);
                is_meta = is_padding_incompatible_domain uc host in
            bindI (find_remote_ip env resolver host port) (\<lambda>found. case found of
               None \<Rightarrow> tcp_write_all env Client HTTP_502_BAD_GATEWAY
             | Some remote_ip \<Rightarrow>
                 if is_local_ip remote_ip then tcp_write_all env Client HTTP_403_FORBIDDEN
                 else
                   let remote_addr = \<lparr>sa_ip = remote_ip, sa_port = port\<rparr> in
                   bindI (attempt (connect_remote_socket env remote_addr config)) (\<lambda>connected. case connected of
                      Inl _ \<Rightarrow> tcp_write_all env Client HTTP_502_BAD_GATEWAY
                    | Inr _ \<Rightarrow>
                        bindI (tcp_write_all env Client HTTP_200_ESTABLISHED) (\<lambda>_.
                        bindI (tcp_flush env Client) (\<lambda>_.
                        bindI (tcp_read env Client CLIENT_HELLO_BUF_SIZE) (\<lambda>raw_bytes.
                        if raw_bytes \<noteq> []
                        then relay_client_hello env config host remote_addr is_meta raw_bytes
                        else tunnel_bidirectional env))))))"

text \<open>The request as text, and the dispatch on it.\<close>

definition decode_request :: "bytes \<Rightarrow> rstr" where
  "decode_request request_bytes =
     (case from_utf8 request_bytes of Some s \<Rightarrow> s | None \<Rightarrow> from_utf8_lossy request_bytes)"

definition dispatch_request ::
  "(rstr \<Rightarrow> rstr) \<Rightarrow> env \<Rightarrow> dns_resolver \<Rightarrow> proxy_config \<Rightarrow> rstr \<Rightarrow> unit io" where
  "dispatch_request uc env resolver config request_str =
     (let cleaned_request = preprocess_http_request request_str (http_space config) (mix_header_case config) in
      if is_http_connect cleaned_request then
        handle_connect_tunnel uc env resolver config cleaned_request
      else if starts_with request_str (lit ''GET '') \<or> starts_with request_str (lit ''POST '') then
        handle_plaintext_redirect env request_str
      else handle_active_probe_defense env)"

definition handle_client :: "(rstr \<Rightarrow> rstr) \<Rightarrow> env \<Rightarrow> dns_resolver \<Rightarrow> proxy_config \<Rightarrow> unit io" where
  "handle_client uc env resolver config =
     bindI (set_option env Client Nodelay) (\<lambda>_.
     bindI (tcp_read env Client CLIENT_BUF_SIZE) (\<lambda>request_bytes.
     if request_bytes = [] then okI ()
     else dispatch_request uc env resolver config (decode_request request_bytes)))"


section \<open>What the calls cause\<close>

lemma safe_extract [panic_free]: "safe (extract_first_tls_record raw)"
  unfolding extract_first_tls_record_def Let_def by (intro panic_free) auto

lemma emits_random_delay [emits_intros]:
  "lo \<le> hi \<Longrightarrow> (\<And>v. P (Drew lo hi v)) \<Longrightarrow> (\<And>t. P (Slept t)) \<Longrightarrow> emits P (random_delay env lo hi)"
  unfolding random_delay_def by (intro emits_intros)

lemma emits_split_loop:
  assumes "\<And>bs. P (Wrote s bs)" "P (Failed s)" "\<And>v. P (Drew 80 256 v)"
  shows "emits P (split_loop env s data offset)"
proof (induction "length data - offset" arbitrary: offset rule: less_induct)
  case less
  show ?case
  proof (cases "offset < length data")
    case True
    have "emits P (bindI (tcp_write_all env s (take n (drop offset data))) (\<lambda>_.
        split_loop env s data (offset + min n (length data - offset))))" if "80 \<le> n" for n
      using that True by (intro emits_intros less assms) auto
    then show ?thesis
      unfolding split_loop_step [OF True] emits_def
      by (intro does_bind [OF does_random, where Q = "\<lambda>_ es r. list_all P es \<and> r \<noteq> Panicked"])
        (use assms in auto)
  next
    case False
    then have "split_loop env s data offset = okI ()"
      by (intro ext) (subst split_loop.simps, simp)
    then show ?thesis by (simp add: emits_ok)
  qed
qed

lemma emits_split_and_write [emits_intros]:
  assumes "\<And>bs. P (Wrote s bs)" "P (Failed s)" "\<And>v. P (Drew 80 256 v)" "P (Flushed s)"
  shows "emits P (split_and_write env data s)"
  unfolding split_and_write_def by (intro emits_intros emits_split_loop assms)

lemma emits_transmit [emits_intros]:
  assumes "\<And>bs. P (Wrote s bs)" "P (Failed s)" "P (Flushed s)" "\<And>v. P (Drew 1 5 v)" "\<And>t. P (Slept t)"
  shows "emits P (transmit_tls_records env s rec1 rec2 trailing meta)"
  unfolding transmit_tls_records_def by (intro emits_intros assms) simp

lemma emits_let [emits_intros]: "emits P (f x) \<Longrightarrow> emits P (Let x f)"
  by simp

lemma emits_prod [emits_intros]: "(\<And>a b. x = (a, b) \<Longrightarrow> emits P (f a b)) \<Longrightarrow> emits P (case x of (a, b) \<Rightarrow> f a b)"
  by (cases x) simp

lemma emits_list [emits_intros]:
  "(x = [] \<Longrightarrow> emits P m) \<Longrightarrow> (\<And>a b. x = a # b \<Longrightarrow> emits P (f a b)) \<Longrightarrow>
   emits P (case x of [] \<Rightarrow> m | a # b \<Rightarrow> f a b)"
  by (cases x) auto



section \<open>The cut\<close>

lemma cut_bounds:
  assumes "6 < hl" and "st = 0 \<or> st = (4 :: nat)"
  defines "mid \<equiv> st + (hl - st) div 2"
  shows "2 \<le> max (mid - 1) (st + 2)" and "min (mid + 1) (hl - 2) + 2 \<le> hl"
  using assms by auto

lemma does_random_between:
  assumes "lo \<le> hi" and "a \<le> lo" and "hi + b \<le> c"
  shows "does (\<lambda>es r. (\<exists>v. r = Ok v \<and> a \<le> v \<and> v + b \<le> c) \<and> (\<forall>e \<in> set es. \<exists>lo hi v. e = Drew lo hi v))
    (random_range env lo hi)"
  by (rule does_mono [OF does_random [OF assms(1)]]) (use assms(2,3) in auto)

lemma does_cut:
  assumes "4 < hl"
  shows "does (\<lambda>es r. (\<exists>cut. r = Ok cut \<and> 2 \<le> cut \<and> cut + 2 \<le> hl) \<and> (\<forall>e \<in> set es. \<exists>lo hi v. e = Drew lo hi v))
    (calculate_sni_cut_offset env hl host)"
proof (cases "6 < hl")
  case False
  then have "2 \<le> hl div 2" "hl div 2 + 2 \<le> hl"
    using assms by auto
  with False show ?thesis
    by (simp add: calculate_sni_cut_offset_def does_ok)
next
  case True
  define st where "st = (case str_get_to 4 host of None \<Rightarrow> 0
      | Some s \<Rightarrow> if eq_ignore_ascii_case s (lit ''www.'') then 4 else (0 :: nat))"
  then have st: "st = 0 \<or> st = 4"
    by (auto split: option.splits)
  let ?mid = "st + (hl - st) div 2"
  let ?lo = "max (?mid - 1) (st + 2)" and ?hi = "min (?mid + 1) (hl - 2)"
  note b = cut_bounds [OF True st]
  have eq: "calculate_sni_cut_offset env hl host =
      (if ?lo \<le> ?hi then random_range env ?lo ?hi else okI (hl div 2))"
    using True by (intro ext)
      (simp add: calculate_sni_cut_offset_def st_def [symmetric] Let_def bindI_def liftR_def sub_checked_def)
  show ?thesis
  proof (cases "?lo \<le> ?hi")
    case lh: True
    show ?thesis
      unfolding eq if_P [OF lh]
      by (rule does_random_between [OF lh b])
  next
    case False
    have "2 \<le> hl div 2" "hl div 2 + 2 \<le> hl"
      using True by auto
    then show ?thesis
      unfolding eq if_not_P [OF False] by (simp add: does_ok)
  qed
qed

lemma emits_cut [emits_intros]:
  assumes "4 < hl" and "\<And>lo hi v. P (Drew lo hi v)"
  shows "emits P (calculate_sni_cut_offset env hl host)"
  unfolding emits_def
  by (rule does_mono [OF does_cut [OF assms(1)]]) (use assms(2) in \<open>fastforce simp: list_all_iff\<close>)


section \<open>The first record\<close>

text \<open>What \<open>extract_first_tls_record\<close> returns: a complete record and the rest, or everything.\<close>

lemma extract_spec:
  "\<exists>ch rest. extract_first_tls_record raw = Val (ch, rest) \<and> raw = ch @ rest \<and>
     (rest = [] \<or> (complete_record ch \<and> 6 \<le> length ch \<and> is_client_hello ch = Val True))"
proof (cases "is_client_hello raw = Val True")
  case False
  then have "is_client_hello raw = Val False"
    by (simp add: is_client_hello_eq)
  then show ?thesis by (simp add: extract_first_tls_record_def)
next
  case True
  then have l: "6 \<le> length raw" "raw ! 0 = TLS_CONTENT_TYPE_HANDSHAKE" "raw ! 5 = HANDSHAKE_TYPE_CLIENT_HELLO"
    by (simp_all add: is_client_hello_eq)
  let ?n = "unat (from_be_bytes (raw ! 3) (raw ! 4))"
  show ?thesis
  proof (cases "0 < ?n \<and> 5 + ?n < length raw")
    case False
    then have "extract_first_tls_record raw = Val (raw, [])"
      using True l by (auto simp: extract_first_tls_record_def read_u16_eq TLS_RECORD_HEADER_SIZE_def Let_def)
    then show ?thesis by simp
  next
    case c: True
    let ?ch = "take (5 + ?n) raw"
    have "extract_first_tls_record raw = Val (?ch, drop (5 + ?n) raw)"
      using True l c
      by (simp add: extract_first_tls_record_def read_u16_eq TLS_RECORD_HEADER_SIZE_def Let_def slice_to_def slice_from_def)
    moreover have "complete_record ?ch"
      using c by (simp add: complete_record_def)
    moreover have "6 \<le> length ?ch" using c l by simp
    moreover have "is_client_hello ?ch = Val True"
      using c l by (simp add: is_client_hello_eq)
    ultimately show ?thesis
      by (intro exI [of _ ?ch] exI [of _ "drop (5 + ?n) raw"]) simp
  qed
qed



text \<open>The lookup of the target, with the system resolver behind the proxy's own, keeps the contract of a resolver.\<close>

interpretation target: quiet_resolver "\<lambda>env name. find_remote_ip env resolver name port" for resolver port
proof
  fix env name
  have e: "emits resolver_event (find_remote_ip env resolver name port)"
    unfolding find_remote_ip_def by (intro emits_intros dns.causes) (simp_all add: resolver_event_def)
  have "does (\<lambda>es r. \<exists>a. r = Ok a) (find_remote_ip env resolver name port)"
    unfolding find_remote_ip_def
    by (rule does_bind [OF dns.find_quiet, where Q = "\<lambda>_ es r. \<exists>a. r = Ok a"])
      (auto intro!: doesI simp: bindI_def attempt_def lookup_host_def okI_def split: option.splits list.splits sum.splits)
  from does_conj [OF e [unfolded emits_def] this]
  show "does (\<lambda>es r. list_all resolver_event es \<and> (\<exists>a. r = Ok a)) (find_remote_ip env resolver name port)"
    by (rule does_mono) auto
qed


lemma find_remote_ip_literal:
  assumes "parse_ip (trim_end_matches 46 host) = Some ip"
  shows "find_remote_ip env resolver host port = okI (Some ip)"
  using assms by (simp add: find_remote_ip_def resolve_def)


section \<open>Addresses the proxy connects to\<close>

definition connect_allowed :: "event \<Rightarrow> bool" where
  "connect_allowed e = (case e of Connected _ a \<Rightarrow> \<not> is_local_ip (sa_ip a) | _ \<Rightarrow> True)"

lemma connect_allowed_simps [simp]:
  "connect_allowed (Connected s a) = (\<not> is_local_ip (sa_ip a))"
  "connect_allowed (Wrote s bs)" "connect_allowed (Failed s)" "connect_allowed (Flushed s)"
  "connect_allowed (Received s bs)" "connect_allowed (Opened s v6)"
  "connect_allowed (Option_Set s opt)" "connect_allowed (Option_Failed s opt)"
  "connect_allowed (Looked_Up n addrs)" "connect_allowed (Drew lo hi v)" "connect_allowed (Slept t)"
  "connect_allowed (Tunnelled s1 s2)"
  by (simp_all add: connect_allowed_def)

lemma resolver_connect_allowed: "resolver_event e \<Longrightarrow> connect_allowed e"
  by (auto simp: resolver_event_def connect_allowed_def split: event.splits)

lemmas safe_parsers = safe_is_client_hello safe_find_sni_info safe_fragment_at_offset safe_extract

lemma emits_relay:
  assumes "\<not> is_local_ip (sa_ip remote_addr)"
  shows "emits connect_allowed (relay_client_hello env config host remote_addr meta raw)"
  unfolding relay_client_hello_def inject_fake_ttl_probe_def tunnel_bidirectional_def
  by (intro emits_intros safe_parsers) (simp_all add: assms)

lemma emits_connect_tunnel: "emits connect_allowed (handle_connect_tunnel uc env resolver config req)"
  unfolding handle_connect_tunnel_def connect_remote_socket_def tunnel_bidirectional_def
  by (intro emits_intros emits_relay target.causes [OF resolver_connect_allowed]) simp_all

lemma emits_redirect [emits_intros]:
  "(\<And>bs. P (Wrote Client bs)) \<Longrightarrow> P (Failed Client) \<Longrightarrow> emits P (handle_plaintext_redirect env req)"
  unfolding handle_plaintext_redirect_def Let_def by (intro emits_intros)

lemma emits_probe_defense [emits_intros]:
  "(\<And>bs. P (Wrote Client bs)) \<Longrightarrow> P (Failed Client) \<Longrightarrow> emits P (handle_active_probe_defense env)"
  unfolding handle_active_probe_defense_def by (intro emits_intros)

lemma emits_handle_client: "emits connect_allowed (handle_client uc env resolver config)"
  unfolding handle_client_def dispatch_request_def
  by (intro emits_intros emits_connect_tunnel) simp_all


section \<open>What is written to one connection\<close>

text \<open>
  \<open>answers s R m\<close>: what \<open>m\<close> writes to the socket \<open>s\<close> is one of the texts of \<open>R\<close> when it
  succeeds, and a prefix of one of them when it fails; it never panics.
\<close>

definition answers :: "sock \<Rightarrow> bytes set \<Rightarrow> 'a io \<Rightarrow> bool" where
  "answers s R m \<longleftrightarrow>
     does (\<lambda>es r. case r of Ok _ \<Rightarrow> sent s es \<in> R | Err _ \<Rightarrow> (\<exists>p \<in> R. prefix (sent s es) p)
       | Panicked \<Rightarrow> False) m"

definition silent_on :: "sock \<Rightarrow> event \<Rightarrow> bool" where
  "silent_on s e \<longleftrightarrow> written s e = []"

lemma silent_on_simps [simp]:
  "silent_on s (Connected s1 a)" "silent_on s (Failed s1)" "silent_on s (Flushed s1)"
  "silent_on s (Received s1 bs)" "silent_on s (Opened s1 v6)"
  "silent_on s (Option_Set s1 opt)" "silent_on s (Option_Failed s1 opt)"
  "silent_on s (Looked_Up n addrs)" "silent_on s (Drew lo hi v)" "silent_on s (Slept t)"
  "silent_on s (Tunnelled s1 s2)" "s1 \<noteq> s \<Longrightarrow> silent_on s (Wrote s1 bs)"
  by (simp_all add: silent_on_def)

lemma resolver_silent_on: "resolver_event e \<Longrightarrow> silent_on s e"
  by (auto simp: resolver_event_def silent_on_def split: event.splits)

lemma silent_on_sent: "list_all (silent_on s) es \<Longrightarrow> sent s es = []"
  by (rule sent_silent) (simp add: silent_on_def [abs_def])

lemma answers_write: "p \<in> R \<Longrightarrow> answers s R (tcp_write_all env s p)"
  unfolding answers_def
  by (rule does_mono [OF delivers_write_all [of s p env, unfolded delivers_def]]) (auto split: res.splits)

lemma answers_silent_bind:
  assumes "emits (silent_on s) m" and "\<And>x. answers s R (f x)" and "R \<noteq> {}"
  shows "answers s R (bindI m f)"
  unfolding answers_def
  by (rule does_bind [OF assms(1) [unfolded emits_def] assms(2) [unfolded answers_def]])
    (use assms(3) in \<open>auto simp: silent_on_sent split: res.splits\<close>)

lemma answers_then_silent:
  assumes "answers s R m" and "\<And>x. emits (silent_on s) (f x)"
  shows "answers s R (bindI m f)"
  unfolding answers_def
  by (rule does_bind [OF assms(1) [unfolded answers_def] assms(2) [unfolded emits_def]])
    (auto simp: silent_on_sent split: res.splits)

lemma answers_if: "(b \<Longrightarrow> answers s R m) \<Longrightarrow> (\<not> b \<Longrightarrow> answers s R n) \<Longrightarrow> answers s R (if b then m else n)"
  by simp

lemma answers_option:
  "(x = None \<Longrightarrow> answers s R m) \<Longrightarrow> (\<And>y. x = Some y \<Longrightarrow> answers s R (f y)) \<Longrightarrow>
   answers s R (case x of None \<Rightarrow> m | Some y \<Rightarrow> f y)"
  by (cases x) auto

lemma silent_relay: "emits (silent_on Client) (relay_client_hello env config host remote_addr meta raw)"
  unfolding relay_client_hello_def inject_fake_ttl_probe_def tunnel_bidirectional_def
  by (intro emits_intros safe_parsers) simp_all


section \<open>What the server receives\<close>

text \<open>
  The byte streams the relay may send for the first bytes \<open>raw\<close> of the client: the two records
  of a cut inside the host name and what follows the ClientHello, or the first record alone.
\<close>

definition outbound :: "bytes \<Rightarrow> bytes set" where
  "outbound raw =
     {p. \<exists>ch rest info cut r1 r2. extract_first_tls_record raw = Val (ch, rest) \<and>
        find_sni_info ch = Val (Some info) \<and> 4 < hostname_length info \<and>
        2 \<le> cut \<and> cut + 2 \<le> hostname_length info \<and>
        fragment_at_offset ch (hostname_offset info + cut) = Val (r1, Some r2) \<and>
        p = record_bytes r1 @ record_bytes r2 @ rest} \<union>
     {ch. \<exists>rest. extract_first_tls_record raw = Val (ch, rest) \<and>
        (find_sni_info ch = Val None \<or>
         (\<exists>info. find_sni_info ch = Val (Some info) \<and> hostname_length info \<le> 4))}"

lemma answers_delivers: "delivers s p m \<Longrightarrow> p \<in> R \<Longrightarrow> answers s R m"
  unfolding answers_def delivers_def by (erule does_mono) (auto split: res.splits)

lemma answers_nonempty: "answers s R m \<Longrightarrow> R \<noteq> {}"
proof -
  assume "answers s R m"
  from doesD [OF this [unfolded answers_def]] obtain es and r :: "'a res" where
    "case r of Ok _ \<Rightarrow> sent s es \<in> R | Err _ \<Rightarrow> (\<exists>p \<in> R. prefix (sent s es) p) | Panicked \<Rightarrow> False"
    by blast
  then show "R \<noteq> {}" by (cases r) auto
qed

lemma silent_probe:
  "emits (silent_on Remote)
     (if b then bindI (liftR (is_client_hello raw)) (\<lambda>hello.
        if hello then inject_fake_ttl_probe env a sni ttl else okI ()) else okI ())"
  unfolding inject_fake_ttl_probe_def by (intro emits_intros safe_parsers) simp_all

lemma emits_answers_bind:
  assumes "does P m" and "\<And>es r. P es r \<Longrightarrow> list_all (silent_on s) es \<and> (\<exists>x. r = Ok x)"
    and "\<And>es x. P es (Ok x) \<Longrightarrow> answers s R (f x)"
  shows "answers s R (bindI m f)"
  unfolding answers_def
  by (rule does_bind [OF assms(1) assms(3) [unfolded answers_def]])
    (use assms(2) in \<open>auto dest!: assms(2) simp: silent_on_sent split: res.splits\<close>)

lemma relay_outbound:
  "answers Remote (outbound raw) (relay_client_hello env config host remote_addr meta raw)"
proof -
  obtain ch rest where ex: "extract_first_tls_record raw = Val (ch, rest)"
    using extract_spec by blast
  obtain sni where sni: "find_sni_info ch = Val sni"
    using safeD [OF safe_find_sni_info] by blast
  let ?fallback = "bindI (split_and_write env ch Remote) (\<lambda>_. tunnel_bidirectional env)"
  have fb: "answers Remote (outbound raw) ?fallback" if "ch \<in> outbound raw"
    unfolding tunnel_bidirectional_def
    by (intro answers_then_silent answers_delivers [OF segmented.sends_content that] emits_intros) simp_all
  have split: "answers Remote (outbound raw)
      (bindI (calculate_sni_cut_offset env (hostname_length info) host) (\<lambda>cut_in_sni.
        if hostname_offset info + cut_in_sni > TLS_RECORD_HEADER_SIZE \<and> hostname_offset info + cut_in_sni < length ch then
          bindI (liftR (fragment_at_offset ch (hostname_offset info + cut_in_sni))) (\<lambda>(rec1, rec2).
          bindI (transmit_tls_records env Remote rec1 rec2 rest meta) (\<lambda>_.
          tunnel_bidirectional env))
        else ?fallback))" if i: "sni = Some info" "4 < hostname_length info" for info
  proof (rule emits_answers_bind [OF does_cut [OF i(2)]])
    fix es cut
    assume "(\<exists>c. (Ok cut :: nat res) = Ok c \<and> 2 \<le> c \<and> c + 2 \<le> hostname_length info) \<and>
      (\<forall>e \<in> set es. \<exists>lo hi v. e = Drew lo hi v)"
    then have c: "2 \<le> cut" "cut + 2 \<le> hostname_length info" by auto
    let ?p = "hostname_offset info + cut"
    note b = find_sni_info_bounds [OF sni [unfolded i(1)]]
    have p: "5 < ?p" "?p < length ch"
      using b c by linarith+
    then obtain r1 r2 where r: "fragment_at_offset ch ?p = Val (r1, Some r2)"
      using fragment_at_offset_some by blast
    have "record_bytes r1 @ record_bytes r2 @ rest \<in> outbound raw"
      unfolding outbound_def using ex sni i c r by blast
    then have "answers Remote (outbound raw) (transmit_tls_records env Remote r1 (Some r2) rest meta)"
      using answers_delivers [OF records.sends_content [of Remote "(r1, Some r2, rest, meta)" env]] by simp
    then have "answers Remote (outbound raw) (bindI (transmit_tls_records env Remote r1 (Some r2) rest meta)
        (\<lambda>_. tunnel_bidirectional env))"
      unfolding tunnel_bidirectional_def by (intro answers_then_silent emits_intros) simp_all
    with p r show "answers Remote (outbound raw)
        (if ?p > TLS_RECORD_HEADER_SIZE \<and> ?p < length ch then
          bindI (liftR (fragment_at_offset ch ?p)) (\<lambda>(rec1, rec2).
          bindI (transmit_tls_records env Remote rec1 rec2 rest meta) (\<lambda>_. tunnel_bidirectional env))
        else ?fallback)"
      by (simp add: TLS_RECORD_HEADER_SIZE_def)
  qed (auto simp: list_all_iff)
  have main: "answers Remote (outbound raw) (case sni of
        Some info \<Rightarrow>
          if hostname_length info > 4 then
            bindI (calculate_sni_cut_offset env (hostname_length info) host) (\<lambda>cut_in_sni.
              if hostname_offset info + cut_in_sni > TLS_RECORD_HEADER_SIZE \<and> hostname_offset info + cut_in_sni < length ch then
                bindI (liftR (fragment_at_offset ch (hostname_offset info + cut_in_sni))) (\<lambda>(rec1, rec2).
                bindI (transmit_tls_records env Remote rec1 rec2 rest meta) (\<lambda>_.
                tunnel_bidirectional env))
              else ?fallback)
          else ?fallback
      | None \<Rightarrow> ?fallback)"
    by (intro answers_option answers_if split fb) (use ex sni in \<open>auto simp: outbound_def\<close>)
  have "outbound raw \<noteq> {}"
    using main by (rule answers_nonempty)
  then show ?thesis
    unfolding relay_client_hello_def Let_def ex bindI_liftR prod.case
    by (intro answers_silent_bind [OF silent_probe]) (use main sni in simp_all)
qed


lemma extract_complete:
  assumes "complete_record ch" and "is_client_hello ch = Val True"
  shows "extract_first_tls_record (ch @ rest) = Val (ch, rest)"
proof -
  let ?n = "unat (from_be_bytes (ch ! 3) (ch ! 4))"
  have l: "6 \<le> length ch" "?n = length ch - 5" "ch ! 0 = TLS_CONTENT_TYPE_HANDSHAKE" "ch ! 5 = HANDSHAKE_TYPE_CLIENT_HELLO"
    using assms by (simp_all add: complete_record_def is_client_hello_eq)
  then have h: "is_client_hello (ch @ rest) = Val True"
    by (auto simp: is_client_hello_eq nth_append)
  have r: "read_u16 (ch @ rest) 3 = Val (Some (from_be_bytes (ch ! 3) (ch ! 4)))"
    using l by (simp add: read_u16_eq nth_append)
  have n: "5 + ?n = length ch" "0 < ?n"
    using l by linarith+
  show ?thesis
    using h r n by (cases "rest = []")
      (simp_all add: extract_first_tls_record_def TLS_RECORD_HEADER_SIZE_def Let_def slice_to_def slice_from_def)
qed

text \<open>The name in the two records: at least two bytes of it in each of them.\<close>

definition name_is_cut :: "bytes \<Rightarrow> tls_record_slice \<Rightarrow> tls_record_slice \<Rightarrow> bool" where
  "name_is_cut name r1 r2 \<longleftrightarrow>
     (\<exists>a b. name = a @ b \<and> 2 \<le> length a \<and> 2 \<le> length b \<and> suffix a (payload r1) \<and> prefix b (payload r2))"

lemma cut_name:
  assumes "find_sni_info ch = Val (Some info)" and "2 \<le> k" and "k + 2 \<le> hostname_length info"
    and r: "fragment_at_offset ch (hostname_offset info + k) = Val (r1, Some r2)"
  shows "name_is_cut (take (hostname_length info) (drop (hostname_offset info) ch)) r1 r2"
proof -
  let ?o = "hostname_offset info" and ?n = "hostname_length info"
  note b = find_sni_info_bounds [OF assms(1)]
  have p: "5 < ?o + k" "?o + k < length ch" using b assms(2,3) by linarith+
  have pl: "payload r1 = take (?o + k - 5) (drop 5 ch)" "payload r2 = drop (?o + k) ch"
    using frag.split_two [OF p] r by auto
  have "?o + k - 5 = (?o - 5) + k" using b(1) by simp
  then have "payload r1 = take (?o - 5) (drop 5 ch) @ take k (drop ?o ch)"
    unfolding pl using b(1) by (simp only: take_add) simp
  then have "suffix (take k (drop ?o ch)) (payload r1)"
    by (simp add: suffix_def)
  moreover have "take ?n (drop ?o ch) = take k (drop ?o ch) @ take (?n - k) (drop (?o + k) ch)"
  proof -
    have "?n = k + (?n - k)" using assms(3) by simp
    then have "take ?n (drop ?o ch) = take (k + (?n - k)) (drop ?o ch)" by simp
    then show ?thesis unfolding take_add by (simp add: add.commute)
  qed
  moreover have "prefix (take (?n - k) (drop (?o + k) ch)) (payload r2)"
    unfolding pl by (rule take_is_prefix)
  moreover have "2 \<le> length (take k (drop ?o ch))" "2 \<le> length (take (?n - k) (drop (?o + k) ch))"
    using b assms(2,3) by auto
  ultimately show ?thesis
    unfolding name_is_cut_def by blast
qed

lemma outbound_split:
  assumes ch: "complete_record ch" "is_client_hello ch = Val True"
    and i: "find_sni_info ch = Val (Some info)" "4 < hostname_length info"
    and p: "p \<in> outbound (ch @ rest)"
  shows "\<exists>r1 r2. p = record_bytes r1 @ record_bytes r2 @ rest \<and>
      name_is_cut (take (hostname_length info) (drop (hostname_offset info) ch)) r1 r2 \<and>
      handshake_bytes (p @ s) = handshake_bytes (ch @ rest @ s) \<and>
      snd (deframe (p @ s)) = snd (deframe (ch @ rest @ s))"
proof -
  have "p \<in> {p. \<exists>k r1 r2. 2 \<le> k \<and> k + 2 \<le> hostname_length info \<and>
        fragment_at_offset ch (hostname_offset info + k) = Val (r1, Some r2) \<and>
        p = record_bytes r1 @ record_bytes r2 @ rest}"
    using p i unfolding outbound_def extract_complete [OF ch] by auto
  then obtain k r1 r2 where c: "2 \<le> k" "k + 2 \<le> hostname_length info"
    and r: "fragment_at_offset ch (hostname_offset info + k) = Val (r1, Some r2)"
    and p: "p = record_bytes r1 @ record_bytes r2 @ rest"
    by blast
  note b = find_sni_info_bounds [OF i(1)]
  have o: "5 < hostname_offset info + k" "hostname_offset info + k < length ch"
    using b c by linarith+
  note u = frag.handshake_unchanged [OF o ch(1) r, of "rest @ s"]
  show ?thesis
    using cut_name [OF i(1) c r] u p by auto
qed

text \<open>The result of an operation with \<open>answers\<close>, on a history.\<close>

lemma answersD:
  assumes "answers s R m"
  shows "case m h of (r, h') \<Rightarrow>
    (case r of Ok _ \<Rightarrow> \<exists>p \<in> R. sent s h' = sent s h @ p
     | Err _ \<Rightarrow> \<exists>p \<in> R. \<exists>q. prefix q p \<and> sent s h' = sent s h @ q
     | Panicked \<Rightarrow> False)"
proof -
  obtain es r where "m h = (r, h @ es)"
    "case r of Ok _ \<Rightarrow> sent s es \<in> R | Err _ \<Rightarrow> (\<exists>p \<in> R. prefix (sent s es) p) | Panicked \<Rightarrow> False"
    using doesD [OF assms [unfolded answers_def]] by blast
  then show ?thesis by (cases r) auto
qed



section \<open>The fake probe, the redirect, the outbound socket\<close>

text \<open>
  The whole course of a probe to \<open>addr\<close>: the connection fails, or it is made; then the TTL is set, or
  setting it fails, which the program ignores; then the synthetic ClientHello is written once, completely
  or up to an error; then the socket is flushed, or that fails.
\<close>

definition probe_script :: "socket_addr \<Rightarrow> rstr \<Rightarrow> 32 word \<Rightarrow> history \<Rightarrow> bool" where
  "probe_script addr sni ttl es \<longleftrightarrow>
     (let fake_hello = build_synthetic_client_hello (Some (utf8 sni)) False in
      es = [Failed Probe] \<or>
      (\<exists>opt out fl. es = [Connected Probe addr, opt] @ out @ [fl] \<and>
         (opt = Option_Set Probe (Ttl ttl) \<or> opt = Option_Failed Probe (Ttl ttl)) \<and>
         (out = [Wrote Probe fake_hello] \<or> (\<exists>k. out = [Wrote Probe (take k fake_hello), Failed Probe])) \<and>
         (fl = Flushed Probe \<or> fl = Failed Probe)))"

lemma does_attempt_write_all:
  "does (\<lambda>es r. (\<exists>x. r = Ok x) \<and> (es = [Wrote s data] \<or> (\<exists>k. es = [Wrote s (take k data), Failed s])))
     (attempt (tcp_write_all env s data))"
  by (rule does_attempt [OF does_write_all]) auto

lemma does_attempt_flush:
  "does (\<lambda>es r. (\<exists>x. r = Ok x) \<and> (es = [Flushed s] \<or> es = [Failed s])) (attempt (tcp_flush env s))"
  unfolding tcp_flush_def [abs_def] by (rule does_attempt [OF does_answered]) auto

lemma does_attempt_connect:
  "does (\<lambda>es r. (r = Ok (Inr ()) \<and> es = [Connected s addr]) \<or> (\<exists>e. r = Ok (Inl e) \<and> es = [Failed s]))
     (attempt (tcp_connect env s addr))"
  unfolding tcp_connect_def [abs_def] by (rule does_attempt [OF does_answered]) auto

lemma inject_probe_script:
  "does (\<lambda>es r. r = Ok () \<and> probe_script addr sni ttl es) (inject_fake_ttl_probe env addr sni ttl)"
proof -
  let ?hello = "build_synthetic_client_hello (Some (utf8 sni)) False"
  let ?flushed = "\<lambda>es r. r = Ok () \<and> (es = [Flushed Probe] \<or> es = [Failed Probe])"
  let ?out = "\<lambda>out. out = [Wrote Probe ?hello] \<or> (\<exists>k. out = [Wrote Probe (take k ?hello), Failed Probe])"
  let ?written = "\<lambda>es r. r = Ok () \<and> (\<exists>out fl. es = out @ [fl] \<and> ?out out \<and> (fl = Flushed Probe \<or> fl = Failed Probe))"
  have 1: "does ?flushed (bindI (attempt (tcp_flush env Probe)) (\<lambda>_. okI ()))"
    by (rule does_bind [OF does_attempt_flush, where Q = "\<lambda>_ es r. es = [] \<and> r = Ok ()"]) (auto simp: does_ok)
  have 2: "does ?written (bindI (attempt (tcp_write_all env Probe ?hello)) (\<lambda>_.
      bindI (attempt (tcp_flush env Probe)) (\<lambda>_. okI ())))"
    by (rule does_bind [OF does_attempt_write_all 1]) auto
  have 3: "does (\<lambda>es r. r = Ok () \<and> (\<exists>opt es'. es = opt # es' \<and>
      (opt = Option_Set Probe (Ttl ttl) \<or> opt = Option_Failed Probe (Ttl ttl)) \<and> ?written es' (Ok ())))
    (bindI (set_option env Probe (Ttl ttl)) (\<lambda>_. bindI (attempt (tcp_write_all env Probe ?hello)) (\<lambda>_.
      bindI (attempt (tcp_flush env Probe)) (\<lambda>_. okI ()))))"
    by (rule does_bind [OF does_set_option 2]) auto
  show ?thesis
    unfolding inject_fake_ttl_probe_def Let_def
    by (rule does_bind [OF does_attempt_connect, where Q = "\<lambda>x es r. case x of Inl _ \<Rightarrow> es = [] \<and> r = Ok ()
        | Inr _ \<Rightarrow> r = Ok () \<and> (\<exists>opt es'. es = opt # es' \<and>
            (opt = Option_Set Probe (Ttl ttl) \<or> opt = Option_Failed Probe (Ttl ttl)) \<and> ?written es' (Ok ()))"])
      (use 3 in \<open>auto simp: does_ok probe_script_def Let_def split: sum.splits\<close>)
qed

text \<open>The probe touches only its own socket and never makes the handler fail.\<close>

lemma probe_script_sent:
  "probe_script addr sni ttl es \<Longrightarrow> sent Client es = [] \<and> sent Remote es = [] \<and>
     prefix (sent Probe es) (build_synthetic_client_hello (Some (utf8 sni)) False)"
  by (auto simp: probe_script_def Let_def take_is_prefix)

lemma inject_probe_does:
  "does (\<lambda>es r. r = Ok () \<and> sent Client es = [] \<and> sent Remote es = [] \<and>
      prefix (sent Probe es) (build_synthetic_client_hello (Some (utf8 sni)) False))
    (inject_fake_ttl_probe env addr sni ttl)"
  by (rule does_mono [OF inject_probe_script]) (simp add: probe_script_sent)

text \<open>The host of a redirect: the second word of the request line without scheme and path.\<close>

definition redirect_host :: "rstr \<Rightarrow> rstr" where
  "redirect_host request_str =
     (let words = split_whitespace (head_line request_str);
          target_path = (if 1 < length words then words ! 1 else []);
          host_val = (if prefix (lit ''http://'') target_path then drop 7 target_path else target_path)
      in hd (split_char 47 host_val))"

lemma redirect_writes:
  "handle_plaintext_redirect env request_str =
     write_all_vectored env Client [HTTP_301_PREFIX, utf8 (redirect_host request_str), HTTP_301_SUFFIX]"
proof -
  have "split_char 47 x \<noteq> []" for x
    by (simp add: split_char_def)
  then have h: "(case split_char 47 x of [] \<Rightarrow> y | h # _ \<Rightarrow> h) = hd (split_char 47 x)" for x y
    by (cases "split_char 47 x") auto
  have l: "length (lit ''http://'') = 7" by (simp add: lit_def)
  show ?thesis
    unfolding handle_plaintext_redirect_def redirect_host_def Let_def head_line_def [symmetric] h
    by (simp add: strip_prefix_str_def l)
qed

lemma redirect_host_clean:
  assumes "c \<in> set (redirect_host s)"
  shows "\<not> is_whitespace c" and "c \<noteq> 47"
proof -
  let ?w = "split_whitespace (head_line s)"
  let ?t = "if 1 < length ?w then ?w ! 1 else []"
  let ?v = "if prefix (lit ''http://'') ?t then drop 7 ?t else ?t"
  have m: "hd (split_char 47 ?v) \<in> set (split_char 47 ?v)"
    by (simp add: split_char_def)
  have c: "c \<in> set (hd (split_char 47 ?v))"
    using assms by (simp only: redirect_host_def Let_def)
  from m c show "c \<noteq> 47"
    using split_char_no_sep by metis
  have "c \<in> set ?v"
    using c m split_by_subset unfolding split_char_def by blast
  then have "c \<in> set ?t"
    by (auto dest: in_set_dropD split: if_splits)
  then show "\<not> is_whitespace c"
    using is_word_nth [of 1 "head_line s"] by (auto simp: is_word_def split: if_splits)
qed

text \<open>
  The events of a successful outbound connection; \<open>tried\<close> forgets whether an option could be set, which the
  program does not look at either.
\<close>

definition connect_events :: "socket_addr \<Rightarrow> proxy_config \<Rightarrow> history" where
  "connect_events addr config =
     [Opened Remote (is_ipv6 (sa_ip addr)), Option_Set Remote Reuseaddr] @
     (if port_rotate config
      then [Option_Set Remote (Bound (if is_ipv6 (sa_ip addr) then BIND_ZERO_V6 else BIND_ZERO_V4))] else []) @
     [Connected Remote addr, Option_Set Remote Nodelay, Option_Set Client (Keepalive 60),
      Option_Set Remote (Keepalive 60)] @
     (if window_shrink config > 0
      then [Option_Set Remote (Recv_Buffer (max (window_shrink config) 4096)),
            Option_Set Remote (Send_Buffer (max (window_shrink config) 4096))] else [])"

fun tried :: "event \<Rightarrow> event" where
  "tried (Option_Failed s opt) = Option_Set s opt"
| "tried e = e"

lemma tried_connected [simp]: "tried e = Connected s a \<longleftrightarrow> e = Connected s a"
  by (cases e) simp_all

lemma written_tried [simp]: "written s (tried e) = written s e"
  by (cases e) simp_all

lemma tried_same_connections:
  assumes "map tried es = ts"
  shows "Connected s a \<in> set es \<longleftrightarrow> Connected s a \<in> set ts" and "sent s es = sent s ts"
proof -
  show "Connected s a \<in> set es \<longleftrightarrow> Connected s a \<in> set ts"
    by (simp add: image_iff flip: assms) (metis tried_connected)
  show "sent s es = sent s ts"
    by (simp add: sent_def o_def flip: assms)
qed

definition tries :: "history \<Rightarrow> unit io \<Rightarrow> bool" where
  "tries ts m \<longleftrightarrow> does (\<lambda>es r. r = Ok () \<and> map tried es = ts) m"

lemma tries_option: "tries [Option_Set s opt] (set_option env s opt)"
  unfolding tries_def by (rule does_mono [OF does_set_option]) auto

lemma tries_ok: "tries [] (okI ())"
  unfolding tries_def by (rule does_ok) simp

lemma tries_bind: "tries ts m \<Longrightarrow> (\<And>x. tries us (f x)) \<Longrightarrow> tries (ts @ us) (bindI m f)"
  unfolding tries_def by (rule does_bind, assumption) auto

lemma tries_Cons: "tries [e] m \<Longrightarrow> (\<And>x. tries us (f x)) \<Longrightarrow> tries (e # us) (bindI m f)"
  using tries_bind [of "[e]" m us f] by simp

lemma tries_if: "(b \<Longrightarrow> tries ts m) \<Longrightarrow> (\<not> b \<Longrightarrow> tries us n) \<Longrightarrow> tries (if b then ts else us) (if b then m else n)"
  by simp

text \<open>What the outbound connection does: all its events when it succeeds, no connection when it fails.\<close>

definition connects :: "history \<Rightarrow> history \<Rightarrow> unit res \<Rightarrow> bool" where
  "connects ts es r \<longleftrightarrow>
     (case r of Ok _ \<Rightarrow> map tried es = ts | Err _ \<Rightarrow> list_all (\<lambda>e. \<not> (\<exists>s a. e = Connected s a)) es | Panicked \<Rightarrow> False)"

lemma connects_answered:
  assumes "\<And>s a. bad \<noteq> Connected s a" and "tried good = good"
  shows "does (connects [good]) (\<lambda>h. answered (a h) good bad h)"
  by (rule does_mono [OF does_answered]) (use assms in \<open>auto simp: connects_def split: res.splits\<close>)

lemma connects_tries:
  assumes "does (connects ts) m" and "\<And>x. tries us (f x)"
  shows "does (connects (ts @ us)) (bindI m f)"
  by (rule does_bind [OF assms(1) assms(2) [unfolded tries_def]]) (auto simp: connects_def)

lemma tries_connects:
  assumes "does (connects ts) m" and "list_all (\<lambda>e. \<not> (\<exists>s a. e = Connected s a)) ts"
    and "\<And>x. does (connects us) (f x)"
  shows "does (connects (ts @ us)) (bindI m f)"
proof (rule does_bind [OF assms(1,3)])
  fix es x es' r
  assume a: "connects ts es (Ok x)" "connects us es' r"
  then have "list_all (\<lambda>e. \<not> (\<exists>s a. e = Connected s a)) es"
    using assms(2) tried_same_connections(1) [of es ts] by (auto simp: connects_def list_all_iff)
  with a show "connects (ts @ us) (es @ es') r"
    by (auto simp: connects_def split: res.splits)
qed (auto simp: connects_def)

lemma connects_of_tries: "tries ts m \<Longrightarrow> does (connects ts) m"
  unfolding tries_def by (erule does_mono) (simp add: connects_def)

lemma connect_does: "does (connects (connect_events addr config)) (connect_remote_socket env addr config)"
proof -
  let ?v6 = "is_ipv6 (sa_ip addr)"
  let ?bound = "if port_rotate config then [Option_Set Remote (Bound (if ?v6 then BIND_ZERO_V6 else BIND_ZERO_V4))] else []"
  let ?buffers = "if window_shrink config > 0 then [Option_Set Remote (Recv_Buffer (max (window_shrink config) 4096)),
      Option_Set Remote (Send_Buffer (max (window_shrink config) 4096))] else []"
  have tail: "tries ([Option_Set Remote Nodelay, Option_Set Client (Keepalive 60), Option_Set Remote (Keepalive 60)] @ ?buffers)
     (bindI (set_option env Remote Nodelay) (\<lambda>_.
      bindI (set_option env Client (Keepalive 60)) (\<lambda>_.
      bindI (set_option env Remote (Keepalive 60)) (\<lambda>_.
      if window_shrink config > 0 then
       bindI (set_option env Remote (Recv_Buffer (max (window_shrink config) 4096))) (\<lambda>_.
       set_option env Remote (Send_Buffer (max (window_shrink config) 4096)))
      else okI ()))))"
    unfolding append_Cons append_Nil by (intro tries_Cons tries_if tries_option tries_ok)
  have open_sock: "does (connects [Opened Remote ?v6]) (tcp_open env Remote ?v6)"
    and connect: "does (connects [Connected Remote addr]) (tcp_connect env Remote addr)"
    unfolding tcp_open_def [abs_def] tcp_connect_def [abs_def] by (intro connects_answered; simp)+
  have "does (connects ([Opened Remote ?v6] @ [Option_Set Remote Reuseaddr] @ ?bound @ [Connected Remote addr] @
      ([Option_Set Remote Nodelay, Option_Set Client (Keepalive 60), Option_Set Remote (Keepalive 60)] @ ?buffers)))
    (connect_remote_socket env addr config)"
    unfolding connect_remote_socket_def Let_def
    by (intro tries_connects [OF open_sock] tries_connects [OF connects_of_tries [OF tries_option]]
        tries_connects [OF connects_of_tries [OF tries_if [OF tries_option tries_ok]]]
        connects_tries [OF connect] tail) simp_all
  then show ?thesis
    unfolding connect_events_def by simp
qed


section \<open>When the probe is sent\<close>

text \<open>The events of the probe socket.\<close>

fun on_probe :: "event \<Rightarrow> bool" where
  "on_probe (Received s bs) = (s = Probe)"
| "on_probe (Wrote s bs) = (s = Probe)"
| "on_probe (Flushed s) = (s = Probe)"
| "on_probe (Failed s) = (s = Probe)"
| "on_probe (Opened s v6) = (s = Probe)"
| "on_probe (Option_Set s opt) = (s = Probe)"
| "on_probe (Option_Failed s opt) = (s = Probe)"
| "on_probe (Connected s a) = (s = Probe)"
| "on_probe (Tunnelled s1 s2) = (s1 = Probe \<or> s2 = Probe)"
| "on_probe _ = False"

definition probe_events :: "history \<Rightarrow> history" where
  "probe_events es = filter on_probe es"

definition off_probe :: "event \<Rightarrow> bool" where
  "off_probe e \<longleftrightarrow> \<not> on_probe e"

lemma off_probe_events: "list_all off_probe es \<longleftrightarrow> probe_events es = []"
  by (simp add: off_probe_def probe_events_def filter_empty_conv list_all_iff)

lemma probe_events_simps [simp]:
  "probe_events [] = []"
  "probe_events (e # es) = (if on_probe e then e # probe_events es else probe_events es)"
  "probe_events (es @ es') = probe_events es @ probe_events es'"
  by (simp_all add: probe_events_def)

text \<open>Whether a relay of the bytes \<open>raw\<close> sends a probe, and what it does then: the probe first, and nothing else on its socket.\<close>

definition probe_wanted :: "proxy_config \<Rightarrow> bool \<Rightarrow> bytes \<Rightarrow> bool" where
  "probe_wanted config meta raw \<longleftrightarrow>
     0 < fake_ttl config \<and> fake_sni config \<noteq> [] \<and> \<not> meta \<and> is_client_hello raw = Val True"

definition probe_first :: "proxy_config \<Rightarrow> socket_addr \<Rightarrow> history \<Rightarrow> bool" where
  "probe_first config addr es \<longleftrightarrow>
     (\<exists>p t. es = p @ t \<and> probe_script addr (fake_sni config) (fake_ttl config) p \<and> probe_events t = [])"

lemma relay_probes:
  "does (\<lambda>es r. (if probe_wanted config meta raw then probe_first config addr es else probe_events es = []) \<and> r \<noteq> Panicked)
     (relay_client_hello env config host addr meta raw)"
proof -
  let ?P = "\<lambda>es (r :: unit res). r = Ok () \<and>
      (if probe_wanted config meta raw then probe_script addr (fake_sni config) (fake_ttl config) es else es = [])"
  obtain b where "is_client_hello raw = Val b"
    using safeD [OF safe_is_client_hello] by blast
  then have p: "does ?P (if fake_ttl config > 0 \<and> fake_sni config \<noteq> [] \<and> \<not> meta then
              bindI (liftR (is_client_hello raw)) (\<lambda>hello.
              if hello then inject_fake_ttl_probe env addr (fake_sni config) (fake_ttl config)
              else okI ())
            else okI ())"
    using inject_probe_script [of addr "fake_sni config" "fake_ttl config" env]
    by (cases b) (auto simp: probe_wanted_def does_ok)
  show ?thesis
    unfolding relay_client_hello_def
  proof (rule does_bind [OF p, where Q = "\<lambda>_ es r. list_all off_probe es \<and> r \<noteq> Panicked"], fold emits_def, goal_cases)
    case (1 es x)
    show ?case
      unfolding tunnel_bidirectional_def by (intro emits_intros safe_parsers) (simp_all add: off_probe_def)
  next
    case (4 es x es' r)
    then show ?case
      by (auto simp: off_probe_events probe_first_def split: if_splits)
  qed (simp_all split: if_splits)
qed

text \<open>
  The probe in a whole connection: there is none, or the connection to the real server is made first, then
  the client sends a ClientHello, and the probe to the same address follows at once; it is the only one.
\<close>

definition probe_order :: "proxy_config \<Rightarrow> socket_addr \<Rightarrow> history \<Rightarrow> bool" where
  "probe_order config addr es \<longleftrightarrow>
     probe_events es = [] \<or>
     (\<exists>es1 raw es2 meta. es = es1 @ [Received Client raw] @ es2 \<and> probe_events es1 = [] \<and>
        probe_wanted config meta raw \<and> probe_first config addr es2)"

definition probe_discipline :: "proxy_config \<Rightarrow> history \<Rightarrow> bool" where
  "probe_discipline config es \<longleftrightarrow>
     probe_events es = [] \<or>
     (\<exists>es0 addr es'. es = es0 @ [Connected Remote addr] @ es' \<and> probe_events es0 = [] \<and>
        probe_order config addr es')"

interpretation probing: event_order "probe_order config addr" off_probe for config addr
proof
  fix e es
  assume e: "off_probe e" and o: "probe_order config addr es"
  show "probe_order config addr (e # es)"
  proof (cases "probe_events es = []")
    case False
    with o obtain es1 raw es2 meta where "es = es1 @ [Received Client raw] @ es2" "probe_events es1 = []"
      "probe_wanted config meta raw" "probe_first config addr es2"
      by (auto simp: probe_order_def)
    with e show ?thesis
      unfolding probe_order_def
      by (intro disjI2 exI [of _ "e # es1"] exI [of _ raw] exI [of _ es2] exI [of _ meta])
        (simp add: off_probe_def)
  qed (use e in \<open>simp add: probe_order_def off_probe_def\<close>)
qed (simp add: probe_order_def)

interpretation discipline: event_order "probe_discipline config" off_probe for config
proof
  fix e es
  assume e: "off_probe e" and d: "probe_discipline config es"
  show "probe_discipline config (e # es)"
  proof (cases "probe_events es = []")
    case False
    with d obtain es0 addr es' where "es = es0 @ [Connected Remote addr] @ es'" "probe_events es0 = []"
      "probe_order config addr es'"
      by (auto simp: probe_discipline_def)
    with e show ?thesis
      unfolding probe_discipline_def
      by (intro disjI2 exI [of _ "e # es0"] exI [of _ addr] exI [of _ es']) (simp add: off_probe_def)
  qed (use e in \<open>simp add: probe_discipline_def off_probe_def\<close>)
qed (simp add: probe_discipline_def)

lemma established_probes:
  "follows (probe_order config addr)
     (bindI (tcp_write_all env Client HTTP_200_ESTABLISHED) (\<lambda>_.
      bindI (tcp_flush env Client) (\<lambda>_.
      bindI (tcp_read env Client CLIENT_HELLO_BUF_SIZE) (\<lambda>raw_bytes.
      if raw_bytes \<noteq> [] then relay_client_hello env config host addr meta raw_bytes
      else tunnel_bidirectional env))))"
proof -
  let ?Q = "\<lambda>raw es r. (probe_wanted config meta raw \<and> probe_first config addr es \<or> probe_events es = []) \<and> r \<noteq> Panicked"
  have q: "does (?Q raw) (if raw \<noteq> [] then relay_client_hello env config host addr meta raw
      else tunnel_bidirectional env)" for raw
  proof (cases "raw = []")
    case True
    have "emits off_probe (tunnel_bidirectional env)"
      unfolding tunnel_bidirectional_def by (intro emits_intros) (simp add: off_probe_def)
    with True show ?thesis
      by (auto simp: emits_def off_probe_events elim: does_mono)
  next
    case False
    then show ?thesis
      using relay_probes [of config meta raw addr env host] by (auto elim!: does_mono split: if_splits)
  qed
  have "follows (probe_order config addr) (bindI (tcp_read env Client CLIENT_HELLO_BUF_SIZE) (\<lambda>raw_bytes.
      if raw_bytes \<noteq> [] then relay_client_hello env config host addr meta raw_bytes
      else tunnel_bidirectional env))"
    unfolding follows_def
  proof (rule does_bind [OF does_read q], goal_cases)
    case (3 es raw es' r)
    show ?case
    proof (cases "probe_events es' = []")
      case True
      with 3 show ?thesis by (simp add: probe_order_def)
    next
      case False
      with 3 show ?thesis
        unfolding probe_order_def
        by (intro conjI disjI2 exI [of _ "[]"] exI [of _ raw] exI [of _ es'] exI [of _ meta]) simp_all
    qed
  qed (simp_all add: probe_order_def)
  then show ?thesis
    by (intro probing.follows_bind [OF emits_write_all] probing.follows_bind [OF emits_flush])
      (simp_all add: off_probe_def)
qed

lemma on_probe_tried [simp]: "on_probe (tried e) = on_probe e"
  by (cases e) simp_all

lemma tried_off_probe: "map tried es = ts \<Longrightarrow> list_all off_probe ts \<Longrightarrow> list_all off_probe es"
  by (auto simp: list_all_iff off_probe_def)

lemma probe_events_split:
  assumes "map tried es = us @ [Connected s a] @ vs" and "list_all off_probe (us @ vs)"
  shows "\<exists>es1 es2. es = es1 @ [Connected s a] @ es2 \<and> list_all off_probe es1 \<and> list_all off_probe es2"
proof -
  from assms(1) obtain es1 e es2 where e: "es = es1 @ e # es2" "map tried es1 = us" "tried e = Connected s a"
    "map tried es2 = vs"
    by (auto simp: map_eq_append_conv map_eq_Cons_conv eq_commute [of "_ # _" "map _ _"] simp del: tried_connected)
  with assms(2) show ?thesis
    using tried_off_probe [of es1 us] tried_off_probe [of es2 vs] by auto
qed

lemma connect_events_split:
  "\<exists>us vs. connect_events addr config = us @ [Connected Remote addr] @ vs \<and> list_all off_probe (us @ vs)"
proof -
  obtain us vs where c: "connect_events addr config = us @ [Connected Remote addr] @ vs"
    unfolding connect_events_def by (metis append_assoc append_Cons append_Nil)
  moreover have "list_all off_probe (connect_events addr config)"
    by (simp add: connect_events_def off_probe_def)
  ultimately show ?thesis by auto
qed

lemma connect_probes:
  "does (\<lambda>es r. case r of Ok _ \<Rightarrow> \<exists>es1 es2. es = es1 @ [Connected Remote addr] @ es2 \<and>
       list_all off_probe es1 \<and> list_all off_probe es2
     | Err _ \<Rightarrow> list_all off_probe es | Panicked \<Rightarrow> False) (connect_remote_socket env addr config)"
proof -
  have off: "emits off_probe (connect_remote_socket env addr config)"
    unfolding connect_remote_socket_def by (intro emits_intros) (simp_all add: off_probe_def)
  have split: "\<exists>es1 es2. es = es1 @ [Connected Remote addr] @ es2 \<and> list_all off_probe es1 \<and> list_all off_probe es2"
    if "map tried es = connect_events addr config" for es
    using connect_events_split [of addr config] probe_events_split [of es] that by metis
  show ?thesis
  proof (rule does_mono [OF does_conj [OF connect_does off [unfolded emits_def]]], goal_cases)
    case (1 es r)
    then show ?case
      using split [of es] by (cases r) (auto simp: connects_def)
  qed
qed

lemma connected_probes:
  assumes "follows (probe_order config addr) m"
  shows "follows (probe_discipline config) (bindI (attempt (connect_remote_socket env addr config)) (\<lambda>connected.
    case connected of Inl _ \<Rightarrow> tcp_write_all env Client HTTP_502_BAD_GATEWAY | Inr _ \<Rightarrow> m))"
proof -
  let ?P = "\<lambda>es (x :: (io_error + unit) res). (case x of Ok (Inr _) \<Rightarrow> \<exists>es1 es2. es = es1 @ [Connected Remote addr] @ es2 \<and>
      list_all off_probe es1 \<and> list_all off_probe es2 | Ok (Inl _) \<Rightarrow> list_all off_probe es | _ \<Rightarrow> False)"
  show ?thesis
    unfolding follows_def
  proof (rule does_bind [where P = ?P and Q = "\<lambda>x es r. (case x of Inl _ \<Rightarrow> list_all off_probe es
        | Inr _ \<Rightarrow> probe_order config addr es) \<and> r \<noteq> Panicked"], goal_cases)
    case 1
    show ?case
      by (rule does_attempt [OF connect_probes]) simp_all
  next
    case (2 es x)
    have "emits off_probe (tcp_write_all env Client HTTP_502_BAD_GATEWAY)"
      by (intro emits_intros) (simp_all add: off_probe_def)
    then show ?case
      using assms by (cases x) (simp_all add: follows_def emits_def)
  next
    case (5 es x es' r)
    show ?case
    proof (cases x)
      case (Inl e)
      with 5 show ?thesis by (simp add: discipline.idle_events)
    next
      case (Inr u)
      with 5(1) obtain es1 es2 where s: "es = es1 @ [Connected Remote addr] @ es2" "list_all off_probe es1" "list_all off_probe es2"
        by auto
      with 5(2) Inr have "probe_order config addr (es2 @ es')"
        by (simp add: probing.idle_prefix)
      with s show ?thesis
        using 5(2) unfolding probe_discipline_def
        by (intro conjI disjI2 exI [of _ es1] exI [of _ addr] exI [of _ "es2 @ es'"]) (simp_all add: off_probe_events)
    qed
  qed simp_all
qed

lemma resolver_off_probe: "resolver_event e \<Longrightarrow> off_probe e"
  by (cases e) (simp_all add: resolver_event_def off_probe_def)

lemma probe_connect_tunnel: "follows (probe_discipline config) (handle_connect_tunnel uc env resolver config req)"
proof -
  have resolve: "emits off_probe (find_remote_ip env resolver host port)" for host port
    by (rule target.causes [OF resolver_off_probe])
  show ?thesis
    unfolding handle_connect_tunnel_def Let_def
    by (intro follows_option follows_prod follows_if discipline.follows_bind [OF resolve]
        connected_probes [OF established_probes] discipline.follows_idle emits_intros) (simp_all add: off_probe_def)
qed

lemma probe_handle_client: "follows (probe_discipline config) (handle_client uc env resolver config)"
  unfolding handle_client_def dispatch_request_def Let_def
  by (intro discipline.follows_bind follows_if probe_connect_tunnel discipline.follows_idle emits_intros)
    (simp_all add: off_probe_def)


section \<open>Properties\<close>

text \<open>
  C1: A complete ClientHello record whose server name has more than four bytes is forwarded
  so that the record layer of the server is none the wiser: when the relay succeeds, whatever
  the environment does, the server has received two records and the data that followed the
  ClientHello, it collects exactly the handshake bytes the client sent and continues with the same
  rest of the stream, and each record holds at least two bytes of the name, never all of it.
\<close>

theorem relay_splits_client_hello:
  assumes "complete_record ch" and "is_client_hello ch = Val True"
    and "find_sni_info ch = Val (Some info)" and "4 < hostname_length info"
  shows "case relay_client_hello env config host addr meta (ch @ rest) h of (r, h') \<Rightarrow>
    (case r of
       Ok _ \<Rightarrow> \<exists>p r1 r2. sent Remote h' = sent Remote h @ p \<and> p = record_bytes r1 @ record_bytes r2 @ rest \<and>
         name_is_cut (take (hostname_length info) (drop (hostname_offset info) ch)) r1 r2 \<and>
         handshake_bytes (p @ s) = handshake_bytes (ch @ rest @ s) \<and>
         snd (deframe (p @ s)) = snd (deframe (ch @ rest @ s))
     | Err _ \<Rightarrow> \<exists>p q. p \<in> outbound (ch @ rest) \<and> prefix q p \<and> sent Remote h' = sent Remote h @ q
     | Panicked \<Rightarrow> False)"
proof -
  obtain r h' where rh: "relay_client_hello env config host addr meta (ch @ rest) h = (r, h')"
    by (cases "relay_client_hello env config host addr meta (ch @ rest) h")
  note a = answersD [OF relay_outbound [of "ch @ rest" env config host addr meta], of h, unfolded rh prod.case]
  show ?thesis
  proof (cases r)
    case (Ok x)
    with a obtain p where p: "p \<in> outbound (ch @ rest)" "sent Remote h' = sent Remote h @ p" by auto
    from outbound_split [OF assms p(1), of s] p(2) Ok show ?thesis
      unfolding rh by auto
  next
    case (Err e)
    with a obtain p q where "p \<in> outbound (ch @ rest)" "prefix q p" "sent Remote h' = sent Remote h @ q"
      by auto
    with Err show ?thesis unfolding rh by auto
  next
    case Panicked
    with a show ?thesis by simp
  qed
qed

definition example_config :: proxy_config where
  "example_config =
     \<lparr>bind_addr = \<lparr>sa_ip = V4 127 0 0 1, sa_port = 8080\<rparr>, config_dns_addr = [], fake_ttl = 0, fake_sni = [],
      window_shrink = 0, http_space = True, mix_header_case = True, strip_alt_svc = True,
      port_rotate = True, trailing_dot = True, filter_type65 = True, fallback_target = []\<rparr>"

definition example_ch :: bytes where
  "example_ch = build_synthetic_client_hello (Some (utf8 (lit ''example.org''))) False"

theorem relay_splits_client_hello_witness:
  "case relay_client_hello calm_env example_config (lit ''example.org.'')
      \<lparr>sa_ip = V4 1 1 1 1, sa_port = 443\<rparr> False (example_ch @ [0x14, 3, 3]) [] of (r, h') \<Rightarrow>
    (case r of
       Ok _ \<Rightarrow> \<exists>p r1 r2. sent Remote h' = sent Remote [] @ p \<and> p = record_bytes r1 @ record_bytes r2 @ [0x14, 3, 3] \<and>
         name_is_cut (take (hostname_length \<lparr>hostname_offset = 61, hostname_length = 11\<rparr>)
           (drop (hostname_offset \<lparr>hostname_offset = 61, hostname_length = 11\<rparr>) example_ch)) r1 r2 \<and>
         handshake_bytes (p @ [0, 1, 1]) = handshake_bytes (example_ch @ [0x14, 3, 3] @ [0, 1, 1]) \<and>
         snd (deframe (p @ [0, 1, 1])) = snd (deframe (example_ch @ [0x14, 3, 3] @ [0, 1, 1]))
     | Err _ \<Rightarrow> \<exists>p q. p \<in> outbound (example_ch @ [0x14, 3, 3]) \<and> prefix q p \<and> sent Remote h' = sent Remote [] @ q
     | Panicked \<Rightarrow> False)"
  by (rule relay_splits_client_hello) code_simp+

text \<open>
  C20: The cut of a name of more than four bytes lies at least two bytes from both ends of it,
  for every random number and every host text, and its computation never panics: the random
  range is never empty and no subtraction underflows.
\<close>

theorem sni_cut_inside_name:
  assumes "4 < len"
  shows "\<exists>k es. calculate_sni_cut_offset env len host h = (Ok k, h @ es) \<and> 2 \<le> k \<and> k + 2 \<le> len"
  using doesD [OF does_cut [OF assms], of env host h] by auto

theorem sni_cut_inside_name_witness:
  "\<exists>k es. calculate_sni_cut_offset calm_env 15 (lit ''www.example.org'') [] = (Ok k, [] @ es) \<and> 2 \<le> k \<and> k + 2 \<le> 15"
  by (rule sni_cut_inside_name) simp

text \<open>
  C34: When the first record is not split, because it has no server name or one of at most four bytes, the
  bytes that followed it in the same read are never sent, however the connection ends: the server receives
  the first record alone, or the beginning of it when the connection fails.
\<close>

theorem fallback_drops_trailing_data:
  assumes "complete_record ch" and "is_client_hello ch = Val True" and "find_sni_info ch = Val sni"
    and "case sni of None \<Rightarrow> True | Some info \<Rightarrow> hostname_length info \<le> 4"
  shows "case relay_client_hello env config host addr meta (ch @ trailing) h of (r, h') \<Rightarrow>
    (case r of Ok _ \<Rightarrow> sent Remote h' = sent Remote h @ ch
     | Err _ \<Rightarrow> \<exists>q. prefix q ch \<and> sent Remote h' = sent Remote h @ q
     | Panicked \<Rightarrow> False)"
proof -
  have "outbound (ch @ trailing) = {ch}"
    unfolding outbound_def extract_complete [OF assms(1,2)] using assms(3,4) by (auto split: option.splits)
  with answersD [OF relay_outbound [of "ch @ trailing" env config host addr meta], of h] show ?thesis
    by (auto split: res.splits prod.splits)
qed

theorem fallback_drops_trailing_data_witness:
  "case relay_client_hello calm_env example_config (lit ''a.b.'')
      \<lparr>sa_ip = V4 1 1 1 1, sa_port = 443\<rparr> False
      (build_synthetic_client_hello (Some (utf8 (lit ''a.b''))) False @ [0x17, 3, 3, 0, 1, 7]) [] of
    (r, h') \<Rightarrow>
      (case r of Ok _ \<Rightarrow> sent Remote h' = sent Remote [] @ build_synthetic_client_hello (Some (utf8 (lit ''a.b''))) False
       | Err _ \<Rightarrow> \<exists>q. prefix q (build_synthetic_client_hello (Some (utf8 (lit ''a.b''))) False) \<and>
           sent Remote h' = sent Remote [] @ q
       | Panicked \<Rightarrow> False)"
  by (rule fallback_drops_trailing_data [where sni = "Some \<lparr>hostname_offset = 61, hostname_length = 3\<rparr>"]) code_simp+

text \<open>
  C24: The fake probe is sent only when it is asked for, once, and in its place. The relay of the first bytes
  sends it when a TTL and a fake name are configured, the domain is no Meta domain and the bytes are a
  ClientHello, before anything else, and its course is that of \<open>probe_script\<close>: one connection to the address
  of the server, the configured TTL, one synthetic ClientHello for the configured name, one flush. In all
  other cases it does not touch the probe socket. In a whole connection the probe comes after the
  connection to the server and after the first bytes of the client, and goes to the same address; if it is
  not configured there is none.
\<close>

theorem probe_only_as_configured:
  "\<exists>r es r' es'. relay_client_hello env config host addr meta raw h = (r, h @ es) \<and>
     (if probe_wanted config meta raw then probe_first config addr es else probe_events es = []) \<and>
     handle_client uc env resolver config h = (r', h @ es') \<and> probe_discipline config es'"
  using doesD [OF relay_probes [of config meta raw addr env host], of h]
    followsD [OF probe_handle_client [of config uc env resolver], of h] by blast

text \<open>
  The fake probe never makes the handler fail or panic, writes nothing to the client or the
  real server, and sends at most a synthetic ClientHello for the configured name.
\<close>

lemma fake_probe_isolated:
  "\<exists>es. inject_fake_ttl_probe env addr sni ttl h = (Ok (), h @ es) \<and>
     sent Client es = [] \<and> sent Remote es = [] \<and>
     prefix (sent Probe es) (build_synthetic_client_hello (Some (utf8 sni)) False)"
  using doesD [OF inject_probe_does, of env addr sni ttl h] by auto

text \<open>
  The result of setting the TTL is dropped: when the system refuses it, the probe is sent all the same, with the
  default TTL of the system, so that it reaches the real server.
\<close>

lemma refused_ttl_is_ignored:
  assumes "on_connect env h Probe addr = None" and "\<And>h'. \<not> on_option env h' Probe (Ttl ttl)"
    and "\<And>h' data. on_write_all env h' Probe data = None" and "\<And>h'. on_flush env h' Probe = None"
  shows "inject_fake_ttl_probe env addr sni ttl h = (Ok (), h @ [Connected Probe addr, Option_Failed Probe (Ttl ttl),
     Wrote Probe (build_synthetic_client_hello (Some (utf8 sni)) False), Flushed Probe])"
  using assms by (simp add: inject_fake_ttl_probe_def bindI_def attempt_def tcp_connect_def answered_def set_option_def
      tcp_write_all_def tcp_flush_def okI_def Let_def)

text \<open>
  The outbound socket: on success exactly the options of the configuration are tried, in the order
  of the code, the local port is bound before the connection is made and with an address of the same
  family, and a shrunk buffer is never below 4096 bytes; on an error nothing was connected.
\<close>

lemma connect_remote_socket_events:
  "case connect_remote_socket env addr config h of (r, h') \<Rightarrow>
     (\<exists>es. h' = h @ es \<and> connects (connect_events addr config) es r)"
  using doesD [OF connect_does [of addr config env], of h] by auto

text \<open>
  C37: The redirect answers with the 301 head, the host and the rest of the head, completely; the host
  is free of whitespace, line ends and slashes, so a request cannot inject a header.
\<close>

theorem redirect_exact_and_clean:
  "delivered Client (HTTP_301_PREFIX @ utf8 (redirect_host req) @ HTTP_301_SUFFIX) h
     (handle_plaintext_redirect env req h) \<and>
   filter (\<lambda>c. is_whitespace c \<or> c = 47) (redirect_host req) = []"
  using vectored.contract [of Client "[HTTP_301_PREFIX, utf8 (redirect_host req), HTTP_301_SUFFIX]" h env]
    redirect_host_clean by (auto simp: redirect_writes filter_empty_conv)

text \<open>
  A request in origin form, the form a browser sends to a server, is redirected to the empty host:
  the path is lost and the \<open>Host\<close> header is not looked at.
\<close>

lemma origin_form_redirected_to_nothing:
  "redirect_host (lit ''GET /index.html HTTP/1.1'' @ crlf @ lit ''Host: example.org'' @ crlf @ crlf) = [] \<and>
   redirect_host (lit ''GET http://example.org/a HTTP/1.1'' @ crlf @ crlf) = lit ''example.org''"
  by (intro conjI) code_simp+

text \<open>
  The answer to a probing scanner announces a body of 153 bytes and has one of 146.
\<close>

lemma nginx_banner_length_mismatch:
  "length (utf8 nginx_body) = 146 \<and>
   BENIGN_NGINX_404_RESPONSE = utf8 nginx_headers @ utf8 nginx_body \<and>
   lit ''Content-Length: 153'' \<in> set (str_lines nginx_headers)"
proof (intro conjI)
  show "length (utf8 nginx_body) = 146" by code_simp
  show "BENIGN_NGINX_404_RESPONSE = utf8 nginx_headers @ utf8 nginx_body"
    by (simp add: BENIGN_NGINX_404_RESPONSE_def)
  have "List.member (str_lines nginx_headers) (lit ''Content-Length: 153'')" by code_simp
  then show "lit ''Content-Length: 153'' \<in> set (str_lines nginx_headers)" by (simp add: List.member_iff)
qed

end
