(* ===== verification/Cli_Args.thy ===== *)
theory Cli_Args
  imports Rust_Str
begin

text \<open>
  \<^verbatim>\<open>src/args.rs\<close>: the command line. The loop over the argument vector is a recursion over the
  arguments that are left; \<open>print_help\<close> and the version line end the process, so the result is
  an outcome. The parameter \<open>usize_max\<close> is the largest \<open>usize\<close> of the target the program is built
  for (32 and 64-bit targets are released). What is printed is in the theory \<open>Cli_Help\<close>.
\<close>

section \<open>The configuration and its defaults\<close>

record cli =
  cli_port :: u16
  cli_bind :: rstr
  cli_dns_addr :: rstr
  cli_verbose :: bool
  cli_fake_ttl :: "32 word"
  cli_fake_sni :: rstr
  cli_window_shrink :: nat
  cli_http_space :: bool
  cli_mix_header_case :: bool
  cli_strip_alt_svc :: bool
  cli_port_rotate :: bool
  cli_trailing_dot :: bool
  cli_filter_type65 :: bool
  cli_fallback_target :: rstr

definition default_cli :: cli where
  "default_cli =
     \<lparr>cli_port = 8080, cli_bind = lit ''127.0.0.1'', cli_dns_addr = lit ''127.0.0.1:53'', cli_verbose = False,
      cli_fake_ttl = 0, cli_fake_sni = [], cli_window_shrink = 0, cli_http_space = True, cli_mix_header_case = True,
      cli_strip_alt_svc = True, cli_port_rotate = True, cli_trailing_dot = True, cli_filter_type65 = True,
      cli_fallback_target = lit ''127.0.0.1:80''\<rparr>"

datatype outcome = Parsed cli | Exit_Help | Exit_Version


section \<open>The parser\<close>

text \<open>\<open>val.parse()\<close> for the three integer types; on an error the field keeps its value.\<close>

definition set_port :: "rstr \<Rightarrow> cli \<Rightarrow> cli" where
  "set_port v c = (case parse_uint 65535 v of None \<Rightarrow> c | Some n \<Rightarrow> c\<lparr>cli_port := word_of_int n\<rparr>)"

definition set_fake_ttl :: "rstr \<Rightarrow> cli \<Rightarrow> cli" where
  "set_fake_ttl v c = (case parse_uint 4294967295 v of None \<Rightarrow> c | Some n \<Rightarrow> c\<lparr>cli_fake_ttl := word_of_int n\<rparr>)"

definition set_window_shrink :: "int \<Rightarrow> rstr \<Rightarrow> cli \<Rightarrow> cli" where
  "set_window_shrink usize_max v c =
     (case parse_uint usize_max v of None \<Rightarrow> c | Some n \<Rightarrow> c\<lparr>cli_window_shrink := nat n\<rparr>)"

text \<open>An argument with an equals sign: the key decides, an unknown key is skipped.\<close>

definition assign_key :: "int \<Rightarrow> rstr \<Rightarrow> rstr \<Rightarrow> cli \<Rightarrow> cli" where
  "assign_key usize_max key val c =
     (if key = lit ''-p'' \<or> key = lit ''--port'' then set_port val c
      else if key = lit ''-b'' \<or> key = lit ''--bind'' then c\<lparr>cli_bind := val\<rparr>
      else if key = lit ''-d'' \<or> key = lit ''--dns-addr'' \<or> key = lit ''--doh-url'' then c\<lparr>cli_dns_addr := val\<rparr>
      else if key = lit ''--fallback-target'' then c\<lparr>cli_fallback_target := val\<rparr>
      else if key = lit ''-F'' \<or> key = lit ''--fake-ttl'' then set_fake_ttl val c
      else if key = lit ''--fake-sni'' then c\<lparr>cli_fake_sni := val\<rparr>
      else if key = lit ''-W'' \<or> key = lit ''--window-shrink'' then set_window_shrink usize_max val c
      else c)"

text \<open>
  \<open>with_value rest upd k c\<close>: the next argument, if there is one, is the value and is consumed.
\<close>

definition with_value ::
  "rstr list \<Rightarrow> (rstr \<Rightarrow> cli \<Rightarrow> cli) \<Rightarrow> (cli \<Rightarrow> rstr list \<Rightarrow> outcome) \<Rightarrow> cli \<Rightarrow> outcome" where
  "with_value rest upd k c = (case rest of [] \<Rightarrow> k c [] | v # rest' \<Rightarrow> k (upd v c) rest')"

lemma with_value_cong [fundef_cong]:
  assumes "rest = rest'" and "c = c'" and "\<And>v. upd v c' = upd' v c'"
    and "\<And>c r. length r \<le> length rest' \<Longrightarrow> k c r = k' c r"
  shows "with_value rest upd k c = with_value rest' upd' k' c'"
  using assms by (auto simp: with_value_def split: list.splits)

function parse_args :: "int \<Rightarrow> cli \<Rightarrow> rstr list \<Rightarrow> outcome" where
  "parse_args usize_max c [] = Parsed c"
| "parse_args usize_max c (arg # rest) =
     (case split_once 61 arg of
        Some (key, val) \<Rightarrow> parse_args usize_max (assign_key usize_max key val c) rest
      | None \<Rightarrow>
         if arg = lit ''-p'' \<or> arg = lit ''--port'' then
           with_value rest set_port (parse_args usize_max) c
         else if arg = lit ''-b'' \<or> arg = lit ''--bind'' then
           with_value rest (\<lambda>v c. c\<lparr>cli_bind := v\<rparr>) (parse_args usize_max) c
         else if arg = lit ''-d'' \<or> arg = lit ''--dns-addr'' \<or> arg = lit ''--doh-url'' then
           with_value rest (\<lambda>v c. c\<lparr>cli_dns_addr := v\<rparr>) (parse_args usize_max) c
         else if arg = lit ''-v'' \<or> arg = lit ''--verbose'' then
           parse_args usize_max (c\<lparr>cli_verbose := True\<rparr>) rest
         else if arg = lit ''-e'' \<or> arg = lit ''--http-space'' then
           parse_args usize_max (c\<lparr>cli_http_space := True\<rparr>) rest
         else if arg = lit ''-m'' \<or> arg = lit ''--mix-header-case'' then
           parse_args usize_max (c\<lparr>cli_mix_header_case := True\<rparr>) rest
         else if arg = lit ''-s'' \<or> arg = lit ''--strip-alt-svc'' then
           parse_args usize_max (c\<lparr>cli_strip_alt_svc := True\<rparr>) rest
         else if arg = lit ''-R'' \<or> arg = lit ''--port-rotate'' then
           parse_args usize_max (c\<lparr>cli_port_rotate := True\<rparr>) rest
         else if arg = lit ''-t'' \<or> arg = lit ''--trailing-dot'' then
           parse_args usize_max (c\<lparr>cli_trailing_dot := True\<rparr>) rest
         else if arg = lit ''-T'' \<or> arg = lit ''--filter-type65'' then
           parse_args usize_max (c\<lparr>cli_filter_type65 := True\<rparr>) rest
         else if arg = lit ''--fallback-target'' then
           with_value rest (\<lambda>v c. c\<lparr>cli_fallback_target := v\<rparr>) (parse_args usize_max) c
         else if arg = lit ''-F'' \<or> arg = lit ''--fake-ttl'' then
           with_value rest set_fake_ttl (parse_args usize_max) c
         else if arg = lit ''--fake-sni'' then
           with_value rest (\<lambda>v c. c\<lparr>cli_fake_sni := v\<rparr>) (parse_args usize_max) c
         else if arg = lit ''-W'' \<or> arg = lit ''--window-shrink'' then
           with_value rest (set_window_shrink usize_max) (parse_args usize_max) c
         else if arg = lit ''-h'' \<or> arg = lit ''--help'' then Exit_Help
         else if arg = lit ''-V'' \<or> arg = lit ''--version'' then Exit_Version
         else parse_args usize_max c rest)"
  by pat_completeness auto
termination
  by (relation "measure (\<lambda>(m, c, args). length args)") auto

declare parse_args.simps(2) [simp del]

text \<open>The loop starts at index 1, behind the program name.\<close>

definition parse_from :: "int \<Rightarrow> rstr list \<Rightarrow> outcome" where
  "parse_from usize_max args = parse_args usize_max default_cli (drop 1 args)"

text \<open>
  \<open>Parser::parse\<close> reads the arguments of the process. They are collected before the loop, and collecting them
  panics when one of them, given as \<open>None\<close>, is not Unicode.
\<close>

fun collect_args :: "rstr option list \<Rightarrow> rstr list rust" where
  "collect_args [] = Val []"
| "collect_args (None # args) = Panic"
| "collect_args (Some arg # args) = bindR (collect_args args) (\<lambda>rest. Val (arg # rest))"

definition parse_cli :: "int \<Rightarrow> rstr option list \<Rightarrow> outcome rust" where
  "parse_cli usize_max env_args = bindR (collect_args env_args) (\<lambda>args. Val (parse_from usize_max args))"

lemma collect_args_eq: "collect_args args = (if None \<in> set args then Panic else Val (map the args))"
  by (induction args rule: collect_args.induct) auto


section \<open>Evaluating the parser\<close>

lemma lit_inject [simp]: "lit a = lit b \<longleftrightarrow> a = b"
proof -
  have "inj (of_char :: char \<Rightarrow> int)" by (rule inj_of_char)
  then show ?thesis by (simp add: lit_def inj_map_eq_map)
qed

lemma parse_args_equals:
  "61 \<notin> set key \<Longrightarrow>
   parse_args m c ((key @ 61 # v) # rest) = parse_args m (assign_key m key v c) rest"
  by (subst parse_args.simps) (simp add: split_once_append)

definition value_options :: "rstr list" where
  "value_options = map lit [''-p'', ''--port'', ''-b'', ''--bind'', ''-d'', ''--dns-addr'', ''--doh-url'',
     ''--fallback-target'', ''-F'', ''--fake-ttl'', ''--fake-sni'', ''-W'', ''--window-shrink'']"

lemma value_options_plain: "key \<in> set value_options \<Longrightarrow> 61 \<notin> set key"
proof -
  have "list_all (\<lambda>key. \<not> List.member key 61) value_options" by code_simp
  then show "key \<in> set value_options \<Longrightarrow> 61 \<notin> set key"
    by (simp add: list_all_iff)
qed

lemma value_option_step:
  assumes "key \<in> set value_options"
  shows "parse_args m c (key # v # rest) = parse_args m (assign_key m key v c) rest"
proof -
  have "split_once 61 key = None"
    using value_options_plain [OF assms] by (simp add: split_once_None)
  then show ?thesis
    using assms
    by (subst parse_args.simps)
      (auto simp: value_options_def assign_key_def with_value_def)
qed

text \<open>The six switches.\<close>

definition switches_on :: "cli \<Rightarrow> bool" where
  "switches_on c \<longleftrightarrow>
     cli_http_space c \<and> cli_mix_header_case c \<and> cli_strip_alt_svc c \<and> cli_port_rotate c \<and>
     cli_trailing_dot c \<and> cli_filter_type65 c"

lemma switches_on_sets [simp]:
  "switches_on (set_port v c) = switches_on c"
  "switches_on (set_fake_ttl v c) = switches_on c"
  "switches_on (set_window_shrink m v c) = switches_on c"
  "switches_on (assign_key m key v c) = switches_on c"
  by (simp_all add: switches_on_def assign_key_def set_port_def set_fake_ttl_def set_window_shrink_def
      split: option.splits)

lemma parse_args_keeps_switches:
  "switches_on c \<Longrightarrow> parse_args m c args = Parsed c' \<Longrightarrow> switches_on c'"
proof (induction args arbitrary: c rule: length_induct)
  case (1 args)
  show ?case
  proof (cases args)
    case Nil
    with "1.prems" show ?thesis by simp
  next
    case (Cons arg rest)
    have IH: "switches_on d \<Longrightarrow> parse_args m d r = Parsed c' \<Longrightarrow> switches_on c'"
      if "length r \<le> length rest" for d r
      using "1.IH" [rule_format, of r d] that Cons by (simp add: less_Suc_eq_le)
    have W: "switches_on c'"
      if "with_value rest upd (parse_args m) c = Parsed c'" and "\<And>v. switches_on (upd v c) = switches_on c" for upd
    proof (cases rest)
      case Nil
      with that(1) "1.prems"(1) IH [of "[]" c] show ?thesis
        by (simp add: with_value_def)
    next
      case (Cons v r)
      with that(1) have "parse_args m (upd v c) r = Parsed c'"
        by (simp add: with_value_def)
      moreover have "switches_on (upd v c)"
        using that(2) "1.prems"(1) by simp
      ultimately show ?thesis
        using IH [of r "upd v c"] \<open>rest = v # r\<close> by simp
    qed
    have S: "switches_on (c\<lparr>cli_verbose := True\<rparr>)" "switches_on (c\<lparr>cli_http_space := True\<rparr>)"
      "switches_on (c\<lparr>cli_mix_header_case := True\<rparr>)" "switches_on (c\<lparr>cli_strip_alt_svc := True\<rparr>)"
      "switches_on (c\<lparr>cli_port_rotate := True\<rparr>)" "switches_on (c\<lparr>cli_trailing_dot := True\<rparr>)"
      "switches_on (c\<lparr>cli_filter_type65 := True\<rparr>)"
      "\<And>v. switches_on (c\<lparr>cli_bind := v\<rparr>)" "\<And>v. switches_on (c\<lparr>cli_dns_addr := v\<rparr>)"
      "\<And>v. switches_on (c\<lparr>cli_fallback_target := v\<rparr>)" "\<And>v. switches_on (c\<lparr>cli_fake_sni := v\<rparr>)"
      using "1.prems"(1) by (simp_all add: switches_on_def)
    show ?thesis
    proof (cases "split_once 61 arg")
      case (Some kv)
      then have "parse_args m (assign_key m (fst kv) (snd kv) c) rest = Parsed c'"
        using "1.prems"(2) Cons by (subst (asm) Cons, subst (asm) parse_args.simps) (cases kv, simp)
      from IH [OF order_refl _ this] "1.prems"(1) show ?thesis by simp
    next
      case None
      with "1.prems"(2) show ?thesis
        unfolding Cons
        by (subst (asm) parse_args.simps)
          (auto simp del: lit_inject split: if_splits intro: IH [OF order_refl] IH [OF order_refl "1.prems"(1)] W S simp: S "1.prems"(1))
    qed
  qed
qed



text \<open>The command line that sets every option of a configuration.\<close>

definition render_args :: "cli \<Rightarrow> rstr list" where
  "render_args c =
     [lit ''--port'', show_int (uint (cli_port c)), lit ''--bind'', cli_bind c,
      lit ''--dns-addr'', cli_dns_addr c, lit ''--fallback-target'', cli_fallback_target c,
      lit ''--fake-ttl'', show_int (uint (cli_fake_ttl c)), lit ''--fake-sni'', cli_fake_sni c,
      lit ''--window-shrink'', show_int (int (cli_window_shrink c))] @
     (if cli_verbose c then [lit ''--verbose''] else [])"

lemma set_shown:
  "set_port (show_int (uint p)) c = c\<lparr>cli_port := p\<rparr>"
  "set_fake_ttl (show_int (uint t)) c = c\<lparr>cli_fake_ttl := t\<rparr>"
  "int w \<le> m \<Longrightarrow> set_window_shrink m (show_int (int w)) c = c\<lparr>cli_window_shrink := w\<rparr>"
  using unsigned_less [of p, where ?'a = int] unsigned_less [of t, where ?'a = int]
  by (simp_all add: set_port_def set_fake_ttl_def set_window_shrink_def parse_uint_show)

lemma parse_args_rendered:
  assumes "switches_on c" and "int (cli_window_shrink c) \<le> m"
  shows "parse_args m default_cli (render_args c) = Parsed c"
proof -
  have v: "parse_args m d [lit ''--verbose''] = Parsed (d\<lparr>cli_verbose := True\<rparr>)" for d
    by (subst parse_args.simps) (simp add: split_once_None lit_def)
  have m: "lit x \<in> set value_options" if "x \<in> set [''--port'', ''--bind'', ''--dns-addr'',
      ''--fallback-target'', ''--fake-ttl'', ''--fake-sni'', ''--window-shrink'']" for x
    using that by (auto simp: value_options_def)
  show ?thesis
    using assms
    by (cases c)
      (simp add: render_args_def value_option_step m assign_key_def set_shown v default_cli_def switches_on_def)
qed


section \<open>Properties\<close>

text \<open>
  C21: Round trip: for every configuration with the six switches on, parsing the command line
  that sets its options gives back exactly that configuration, so every other field can be
  set to any value from the command line.
\<close>

theorem command_line_roundtrip:
  assumes "switches_on c" and "int (cli_window_shrink c) \<le> usize_max"
  shows "parse_from usize_max (prog # render_args c) = Parsed c"
  using parse_args_rendered [OF assms] by (simp add: parse_from_def)

definition example_cli :: cli where
  "example_cli = default_cli\<lparr>cli_port := 9090, cli_bind := lit ''0.0.0.0'', cli_verbose := True,
     cli_fake_ttl := 5, cli_fake_sni := lit ''google.com'', cli_window_shrink := 4096\<rparr>"

theorem command_line_roundtrip_witness:
  "parse_from 4294967295 (lit ''greentunnelRS'' # render_args example_cli) = Parsed example_cli"
  by (rule command_line_roundtrip) (simp_all add: example_cli_def default_cli_def switches_on_def)

text \<open>
  The two forms of an option agree: for every option with a value, at every position, with
  any value (with equals signs of its own, or empty), \<open>--option=value\<close> has the effect of
  \<open>--option value\<close>.
\<close>

lemma option_forms_agree:
  assumes "key \<in> set value_options"
  shows "parse_args usize_max c ((key @ lit ''='' @ v) # rest) = parse_args usize_max c (key # v # rest)"
proof -
  have "lit ''='' = [61]" by code_simp
  then show ?thesis
    using value_option_step [OF assms] parse_args_equals [OF value_options_plain [OF assms]] by simp
qed

lemma option_forms_agree_example:
  "parse_args 4294967295 default_cli [lit ''--port'' @ lit ''='' @ lit ''9999'', lit ''-v''] =
   parse_args 4294967295 default_cli [lit ''--port'', lit ''9999'', lit ''-v'']"
  by (rule option_forms_agree) (simp add: value_options_def)

text \<open>
  C38: No command line turns one of the six evasion switches off: whatever the arguments are, a
  configuration the parser returns has all of them on, and a \<open>--switch=false\<close> is skipped.
\<close>

theorem switches_cannot_be_disabled:
  "case parse_from usize_max args of
     Parsed c \<Rightarrow> cli_http_space c \<and> cli_mix_header_case c \<and> cli_strip_alt_svc c \<and>
       cli_port_rotate c \<and> cli_trailing_dot c \<and> cli_filter_type65 c
   | _ \<Rightarrow> True"
proof -
  have "switches_on default_cli" by (simp add: switches_on_def default_cli_def)
  from parse_args_keeps_switches [OF this, of usize_max "drop 1 args"] show ?thesis
    by (auto simp: parse_from_def switches_on_def split: outcome.splits)
qed

text \<open>
  A number that does not parse or does not fit its type (a port above 65535, a TTL above
  \<open>u32::MAX\<close>, a window above \<open>usize::MAX\<close>) leaves the whole configuration as it was, and
  the value is consumed with its option.
\<close>

lemma bad_number_is_ignored:
  assumes "parse_uint 65535 v = None" and "parse_uint 4294967295 t = None" and "parse_uint usize_max w = None"
  shows "parse_args usize_max c (lit ''--port'' # v # lit ''--fake-ttl'' # t # lit ''--window-shrink'' # w # rest) =
         parse_args usize_max c rest"
  using assms
  by (simp add: value_option_step value_options_def assign_key_def set_port_def set_fake_ttl_def
      set_window_shrink_def)

lemma bad_number_is_ignored_example:
  "parse_args 4294967295 default_cli [lit ''--port'', lit ''65536'', lit ''--fake-ttl'', lit ''-1'',
     lit ''--window-shrink'', lit ''4k''] = Parsed default_cli"
proof -
  have "parse_args 4294967295 default_cli [lit ''--port'', lit ''65536'', lit ''--fake-ttl'', lit ''-1'',
      lit ''--window-shrink'', lit ''4k''] = parse_args 4294967295 default_cli []"
    by (rule bad_number_is_ignored) code_simp+
  then show ?thesis by simp
qed

end
