(* ===== verification/Cli_Help.thy ===== *)
theory Cli_Help
  imports Cli_Args
begin

text \<open>
  What \<^verbatim>\<open>src/args.rs\<close> prints before it ends the process: the help page of \<open>print_help\<close> and the
  version line. The page is the documentation the user sees, so it is compared with the parser:
  the options it lists are exactly the ones the parser knows, and its defaults are the defaults.
\<close>

section \<open>The output\<close>

definition help_page :: "rstr list" where
  "help_page =
     [lit ''GreenTunnel Rust '' @ [0x2014] @ lit '' Ultra-fast anti-censorship DPI bypass proxy for Linux, macOS, Windows, and OpenWrt routers.'',
      [],
      lit ''Usage: greentunnelRS [OPTIONS]'',
      [],
      lit ''Options:'',
      lit ''  -p, --port <PORT>             Port to listen on [default: 8080]'',
      lit ''  -b, --bind <IP>               Bind IP address (e.g. 127.0.0.1 or 0.0.0.0) [default: 127.0.0.1]'',
      lit ''  -e, --http-space              Enable HTTP CONNECT extra space insertion desynchronization'',
      lit ''  -m, --mix-header-case         Enable HTTP header key case mixing desynchronization'',
      lit ''  -s, --strip-alt-svc           Strip Alt-Svc headers to enforce TCP TLS 1.3 over censored QUIC UDP [default: true]'',
      lit ''  -R, --port-rotate             Enable TCP source port rotation on connection retries [default: true]'',
      lit ''  -t, --trailing-dot            Append root FQDN trailing dot (example.com.) to break DPI regex filters'',
      lit ''  -T, --filter-type65           Filter out poisoned DNS Type 65 (HTTPS/SVCB) records [default: true]'',
      lit ''      --fallback-target <IP:PORT> Active probing fallback response target [default: 127.0.0.1:80]'',
      lit ''  -F, --fake-ttl <TTL>          Inject fake ClientHello with specified TTL [default: 0 (disabled)]'',
      lit ''      --fake-sni <DOMAIN>       Benign domain name for fake ClientHello injection [default: disabled]'',
      lit ''  -W, --window-shrink <BYTES>   Restrict TCP socket buffer window size [default: 0 (disabled)]'',
      lit ''  -d, --dns-addr <IP:PORT>      DNS resolver server IP:port [default: 127.0.0.1:53]'',
      lit ''  -v, --verbose                 Enable verbose debug log output'',
      lit ''  -h, --help                    Print help information'',
      lit ''  -V, --version                 Print version information'',
      [],
      lit ''Examples:'',
      lit ''  # Basic run on localhost port 8080:'',
      lit ''  greentunnelRS --port 8080'',
      [],
      lit ''  # Run with Fake TTL Packet Injection enabled (fake google.com SNI with TTL 5):'',
      lit ''  greentunnelRS --port 8080 --fake-ttl 5 --fake-sni google.com'',
      [],
      lit ''  # Advanced DPI bypass with Fake TTL and DNS:'',
      lit ''  greentunnelRS -F 5 --fake-sni google.com -d 127.0.0.1:53'']"

definition version_line :: rstr where
  "version_line = lit ''greentunnelRS 0.1.0''"

text \<open>The lines on standard output when the parser ends the process.\<close>

definition printed :: "outcome \<Rightarrow> rstr list" where
  "printed out = (case out of Exit_Help \<Rightarrow> help_page | Exit_Version \<Rightarrow> [version_line] | Parsed _ \<Rightarrow> [])"


section \<open>Reading the page\<close>

text \<open>The lines of the options, up to the next empty line; the leading words with a dash are the options.\<close>

definition option_lines :: "rstr list \<Rightarrow> rstr list" where
  "option_lines page = takeWhile (\<lambda>l. l \<noteq> []) (drop 1 (dropWhile (\<lambda>l. l \<noteq> lit ''Options:'') page))"

definition options_of_line :: "rstr \<Rightarrow> rstr list" where
  "options_of_line l =
     map (trim_end_matches 44) (takeWhile (\<lambda>w. starts_with w (lit ''-'')) (split_whitespace l))"

definition documented_options :: "rstr list \<Rightarrow> rstr list" where
  "documented_options page = concat (map options_of_line (option_lines page))"

lemma documented_options_eval:
  "documented_options help_page = map lit
     [''-p'', ''--port'', ''-b'', ''--bind'', ''-e'', ''--http-space'', ''-m'', ''--mix-header-case'',
      ''-s'', ''--strip-alt-svc'', ''-R'', ''--port-rotate'', ''-t'', ''--trailing-dot'',
      ''-T'', ''--filter-type65'', ''--fallback-target'', ''-F'', ''--fake-ttl'', ''--fake-sni'',
      ''-W'', ''--window-shrink'', ''-d'', ''--dns-addr'', ''-v'', ''--verbose'', ''-h'', ''--help'',
      ''-V'', ''--version'']"
  by code_simp

text \<open>An argument is known when it does not always leave everything to the arguments behind it.\<close>

definition known_argument :: "int \<Rightarrow> rstr \<Rightarrow> bool" where
  "known_argument m arg \<longleftrightarrow> (\<exists>c rest. parse_args m c (arg # rest) \<noteq> parse_args m c rest)"

definition blank_cli :: cli where
  "blank_cli =
     \<lparr>cli_port = 0, cli_bind = [], cli_dns_addr = [], cli_verbose = False, cli_fake_ttl = 0, cli_fake_sni = [],
      cli_window_shrink = 0, cli_http_space = False, cli_mix_header_case = False, cli_strip_alt_svc = False,
      cli_port_rotate = False, cli_trailing_dot = False, cli_filter_type65 = False, cli_fallback_target = []\<rparr>"

text \<open>The \<open>usize_max\<close> of the targets the project releases.\<close>

definition released_usize_max :: "int list" where
  "released_usize_max = [4294967295, 18446744073709551615]"

lemma options_have_effect:
  "list_all (\<lambda>m. list_all (\<lambda>arg. parse_args m blank_cli [arg, lit ''7''] \<noteq> parse_args m blank_cli [lit ''7''])
     (lit ''--doh-url'' # documented_options help_page)) released_usize_max"
  by code_simp

lemma options_are_known:
  assumes "m \<in> set released_usize_max" and "arg \<in> set (lit ''--doh-url'' # documented_options help_page)"
  shows "known_argument m arg"
  using options_have_effect assms by (auto simp: list_all_iff known_argument_def)

lemma other_words_are_skipped:
  assumes "arg \<notin> set (lit ''--doh-url'' # documented_options help_page)" and "61 \<notin> set arg"
  shows "parse_args m c (arg # rest) = parse_args m c rest"
  using assms(1) split_once_None [THEN iffD2, OF assms(2)]
  by (subst parse_args.simps) (simp add: documented_options_eval)


section \<open>Properties\<close>

text \<open>
  C39: The help page is complete and honest about the names: an argument without an equals sign is known
  to the parser if and only if the page lists it, with one exception, the undocumented \<open>--doh-url\<close>.
  Every other argument is skipped without a word.
\<close>

theorem help_lists_the_options:
  assumes "usize_max \<in> set released_usize_max" and "61 \<notin> set arg"
  shows "known_argument usize_max arg \<longleftrightarrow>
    arg \<in> set (documented_options (printed Exit_Help)) \<or> arg = lit ''--doh-url''"
  using options_are_known [OF assms(1), of arg] other_words_are_skipped [OF _ assms(2)]
  by (auto simp: printed_def known_argument_def)

theorem help_lists_the_options_witness:
  "(known_argument 4294967295 (lit ''--colour'') \<longleftrightarrow>
     lit ''--colour'' \<in> set (documented_options (printed Exit_Help)) \<or> lit ''--colour'' = lit ''--doh-url'') \<and>
   \<not> known_argument 4294967295 (lit ''--colour'')"
proof -
  have "\<not> List.member (lit ''--colour'') 61" by code_simp
  then have "61 \<notin> set (lit ''--colour'')" by simp
  moreover have "4294967295 \<in> set released_usize_max" by (simp add: released_usize_max_def)
  ultimately show ?thesis
    using help_lists_the_options [of 4294967295 "lit ''--colour''"]
    by (simp add: printed_def documented_options_eval)
qed

text \<open>
  The defaults the page prints for the options with a value are the defaults of the program: passing
  an option its documented default changes nothing.
\<close>

definition documented_default :: "rstr \<Rightarrow> rstr option" where
  "documented_default l = (case split_once_str (lit ''[default: '') l of
     None \<Rightarrow> None
   | Some (_, text) \<Rightarrow>
       (case split_whitespace (trim_end_matches 93 text) of [] \<Rightarrow> None
        | w # _ \<Rightarrow> Some (if w = lit ''disabled'' then [] else w)))"

lemma documented_defaults_are_defaults:
  "list_all (\<lambda>l. case documented_default l of None \<Rightarrow> True
     | Some v \<Rightarrow> list_all (\<lambda>opt. parse_args 4294967295 default_cli [opt, v] = Parsed default_cli) (options_of_line l))
     (option_lines help_page)"
  by code_simp

end
