(* ===== verification/Server.thy ===== *)
theory Server
  imports Proxy Cli_Help
begin

text \<open>
  The program around the handlers: \<open>main\<close> and the log filter of \<^verbatim>\<open>src/main.rs\<close>, and
  \<open>run_server\<close> and \<open>run_worker_listener\<close> of \<^verbatim>\<open>src/proxy.rs\<close>. Starting up is a function of
  which system calls fail. The accept loop of a worker is a step relation: a connection is
  accepted, accepting fails, a connection task takes a step of its handler, or ends; the tasks interleave in
  any order, event by event, each with an environment of its own, and share only the configuration, which no
  task changes. The threads together are in the theory \<open>Process\<close>.
\<close>

section \<open>The log filter\<close>

text \<open>The levels of the tracing crate, from \<open>ERROR\<close> to \<open>TRACE\<close>, in the order of its \<open>Ord\<close>.\<close>

datatype log_level = ERROR | WARN | INFO | DEBUG | TRACE

fun level_rank :: "log_level \<Rightarrow> nat" where
  "level_rank ERROR = 0"
| "level_rank WARN = 1"
| "level_rank INFO = 2"
| "level_rank DEBUG = 3"
| "level_rank TRACE = 4"

lemma level_rank_inject: "level_rank a = level_rank b \<Longrightarrow> a = b"
  by (cases a; cases b) simp_all

instantiation log_level :: linorder
begin

definition less_eq_log_level :: "log_level \<Rightarrow> log_level \<Rightarrow> bool" where
  "less_eq_log_level a b \<longleftrightarrow> level_rank a \<le> level_rank b"

definition less_log_level :: "log_level \<Rightarrow> log_level \<Rightarrow> bool" where
  "less_log_level a b \<longleftrightarrow> level_rank a < level_rank b"

instance
  by standard (auto simp: less_eq_log_level_def less_log_level_def dest: level_rank_inject)

end

definition enabled :: "bool \<Rightarrow> log_level \<Rightarrow> bool" where
  "enabled is_verbose level = (if is_verbose then level \<le> DEBUG else level \<le> INFO)"


text \<open>
  \<open>event\<close>: the line that is printed for an event, if it is enabled. The fields of the event are given
  with their text as the visitor gets it, formatted by \<open>Debug\<close> or taken as a string; the last field with
  the name \<open>message\<close> wins, the others are dropped.
\<close>

datatype log_field = Debug_Field rstr rstr | Str_Field rstr rstr

fun visit_fields :: "log_field list \<Rightarrow> rstr \<Rightarrow> rstr" where
  "visit_fields [] message = message"
| "visit_fields (Debug_Field name text # fs) message =
     visit_fields fs (if name = lit ''message'' then text else message)"
| "visit_fields (Str_Field name text # fs) message =
     visit_fields fs (if name = lit ''message'' then text else message)"

definition level_name :: "log_level \<Rightarrow> rstr" where
  "level_name l =
     (case l of ERROR \<Rightarrow> lit ''ERROR'' | WARN \<Rightarrow> lit ''WARN'' | INFO \<Rightarrow> lit ''INFO''
      | DEBUG \<Rightarrow> lit ''DEBUG'' | TRACE \<Rightarrow> lit ''TRACE'')"

definition log_event :: "bool \<Rightarrow> log_level \<Rightarrow> rstr \<Rightarrow> log_field list \<Rightarrow> rstr option" where
  "log_event is_verbose level target fs =
     (if \<not> enabled is_verbose level then None
      else Some (lit ''['' @ level_name level @ lit ''] '' @ target @ lit '': '' @ visit_fields fs []))"


section \<open>Starting up\<close>

definition config_of_cli :: "cli \<Rightarrow> proxy_config option" where
  "config_of_cli c =
     (case parse_socket_addr (cli_bind c @ lit '':'' @ show_int (uint (cli_port c))) of
        None \<Rightarrow> None
      | Some addr \<Rightarrow> Some
          \<lparr>bind_addr = addr, config_dns_addr = cli_dns_addr c, fake_ttl = cli_fake_ttl c,
           fake_sni = cli_fake_sni c, window_shrink = cli_window_shrink c, http_space = cli_http_space c,
           mix_header_case = cli_mix_header_case c, strip_alt_svc = cli_strip_alt_svc c,
           port_rotate = cli_port_rotate c, trailing_dot = cli_trailing_dot c,
           filter_type65 = cli_filter_type65 c, fallback_target = cli_fallback_target c\<rparr>)"

text \<open>The calls that open the listener, with whether their error is returned.\<close>

datatype setup_call =
    New_Socket bool | Set_Reuse_Address | Set_Reuse_Port | Set_Nonblocking
  | Bind_Listener socket_addr | Listen nat | From_Std

fun run_calls :: "(setup_call \<Rightarrow> bool) \<Rightarrow> (setup_call \<times> bool) list \<Rightarrow> setup_call list \<times> bool" where
  "run_calls fails [] = ([], True)"
| "run_calls fails ((c, checked) # cs) =
     (if checked \<and> fails c then ([c], False)
      else case run_calls fails cs of (done, ok) \<Rightarrow> (c # done, ok))"

definition open_listener :: "bool \<Rightarrow> (setup_call \<Rightarrow> bool) \<Rightarrow> proxy_config \<Rightarrow> setup_call list \<times> bool" where
  "open_listener has_reuse_port fails config =
     run_calls fails
       ([(New_Socket (is_ipv6 (sa_ip (bind_addr config))), True), (Set_Reuse_Address, False)] @
        (if has_reuse_port then [(Set_Reuse_Port, False)] else []) @
        [(Set_Nonblocking, True), (Bind_Listener (bind_addr config), True), (Listen 1024, True), (From_Std, True)])"

definition num_workers :: "bool \<Rightarrow> nat option \<Rightarrow> nat" where
  "num_workers is_windows parallelism =
     (if is_windows then 1 else case parallelism of Some n \<Rightarrow> n | None \<Rightarrow> 2)"

text \<open>
  How the process ends: with success, with an error, in a panic, or not at all because some workers serve. A
  worker whose listener could not be opened only logs it; \<open>run_server\<close> then joins the others. A runtime
  that cannot be built panics in its thread. The release profile of \<^verbatim>\<open>Cargo.toml\<close> has
  \<^verbatim>\<open>panic = "abort"\<close>, so that there the panic of any thread ends the process (\<open>panic_aborts\<close>); in the other
  profiles it unwinds and ends its thread alone.
\<close>

datatype server_end = Ends_Ok | Ends_With_Error | Ends_In_Panic | Serving "nat list"

record platform =
  is_windows :: bool
  has_reuse_port :: bool
  panic_aborts :: bool
  parallelism :: "nat option"
  spawn_fails :: "nat \<Rightarrow> bool"
  runtime_fails :: "nat \<Rightarrow> bool"
  setup_fails :: "nat \<Rightarrow> setup_call \<Rightarrow> bool"

text \<open>A worker thread builds its runtime and opens its listener.\<close>

definition worker_serves :: "platform \<Rightarrow> proxy_config \<Rightarrow> nat \<Rightarrow> bool" where
  "worker_serves pf config w \<longleftrightarrow>
     \<not> runtime_fails pf w \<and> snd (open_listener (has_reuse_port pf) (setup_fails pf w) config)"

text \<open>Whether one of the first \<open>k\<close> threads takes the process down.\<close>

definition aborts :: "platform \<Rightarrow> nat \<Rightarrow> bool" where
  "aborts pf k \<longleftrightarrow> panic_aborts pf \<and> list_ex (runtime_fails pf) [0..<k]"

text \<open>
  The ends the server may come to. There is more than one of them only when a thread cannot be spawned while an
  earlier one is about to abort the process: then the error may be returned before or not at all.
\<close>

definition run_server :: "platform \<Rightarrow> proxy_config \<Rightarrow> server_end list" where
  "run_server pf config =
     (let n = num_workers (is_windows pf) (parallelism pf) in
      case find (spawn_fails pf) [0..<n] of
        Some k \<Rightarrow> Ends_With_Error # (if aborts pf k then [Ends_In_Panic] else [])
      | None \<Rightarrow>
          if aborts pf n then [Ends_In_Panic]
          else
            let live = filter (worker_serves pf config) [0..<n] in
            if live = [] then [Ends_Ok] else [Serving live])"

text \<open>The banner; a HOL string has no backslash, so a backquote stands for it.\<close>

definition ascii_art :: "string \<Rightarrow> rstr" where
  "ascii_art s = map (\<lambda>c. if c = 96 then 92 else c) (lit s)"

definition banner :: "rstr list" where
  "banner =
     [[],
      ascii_art ''  ________                       ___________                          .__ '',
      ascii_art '' /  _____/______  ____   ____   _`__    ___/__ __  ____   ____   ____ |  |'',
      ascii_art ''/   `  __`_  __ `/ __ `_/ __ ` / ` |    | |  |  `/    ` /    `_/ __ `|  |'',
      ascii_art ''`    `_`  `  | `/`  ___/`  ___/ /  |    | |  |  /   |  `   |  `  ___/|  |__'',
      ascii_art '' `______  /__|    `___  >`___  >   |____| |____/|___|  /___|  /`___  >____/'',
      ascii_art ''        `/            `/     `/                      `/     `/     `/     '',
      []]"

text \<open>What is printed on standard output, and how the process may end.\<close>

definition main :: "int \<Rightarrow> platform \<Rightarrow> rstr option list \<Rightarrow> rstr list \<times> server_end list" where
  "main usize_max pf env_args =
     (case parse_cli usize_max env_args of
        Panic \<Rightarrow> ([], [Ends_In_Panic])
      | Val (Parsed c) \<Rightarrow>
          (case config_of_cli c of
             None \<Rightarrow> ([], [Ends_With_Error])
           | Some config \<Rightarrow> (banner, run_server pf config))
      | Val out \<Rightarrow> (printed out, [Ends_Ok]))"


section \<open>The accept loop of a worker\<close>

text \<open>
  A connection task is running, with what has happened on it so far, or finished. The environment is the
  world as this connection will meet it. Since a handler is sequential and shares nothing with the
  others, its run in this environment is one sequence of events, \<open>task_run\<close>; a running task has done a
  prefix of it, and every further event is a step of its own, between which anything else may happen.
\<close>

datatype task = Running socket_addr env history | Finished socket_addr "unit res" history

record worker =
  tasks :: "task list"
  accept_errors :: nat

definition worker_start :: worker where
  "worker_start = \<lparr>tasks = [], accept_errors = 0\<rparr>"

text \<open>Every worker makes its resolver from the configuration.\<close>

definition worker_resolver :: "proxy_config \<Rightarrow> dns_resolver" where
  "worker_resolver config = new_resolver (config_dns_addr config)"

definition task_run :: "(rstr \<Rightarrow> rstr) \<Rightarrow> proxy_config \<Rightarrow> env \<Rightarrow> unit res \<times> history" where
  "task_run uc config env = handle_client uc env (worker_resolver config) config []"

inductive worker_step :: "(rstr \<Rightarrow> rstr) \<Rightarrow> proxy_config \<Rightarrow> worker \<Rightarrow> worker \<Rightarrow> bool"
  for uc config where
  accepted: "worker_step uc config w (w\<lparr>tasks := tasks w @ [Running client_addr env []]\<rparr>)"
| accept_failed: "worker_step uc config w (w\<lparr>accept_errors := Suc (accept_errors w)\<rparr>)"
| task_event:
    "i < length (tasks w) \<Longrightarrow> tasks w ! i = Running client_addr env h \<Longrightarrow>
     prefix (h @ [e]) (snd (task_run uc config env)) \<Longrightarrow>
     worker_step uc config w (w\<lparr>tasks := (tasks w)[i := Running client_addr env (h @ [e])]\<rparr>)"
| task_ends:
    "i < length (tasks w) \<Longrightarrow> tasks w ! i = Running client_addr env h \<Longrightarrow>
     task_run uc config env = (r, h) \<Longrightarrow>
     worker_step uc config w (w\<lparr>tasks := (tasks w)[i := Finished client_addr r h]\<rparr>)"

inductive_cases worker_stepE: "worker_step uc config w w'"

inductive reachable :: "(rstr \<Rightarrow> rstr) \<Rightarrow> proxy_config \<Rightarrow> worker \<Rightarrow> bool"
  for uc config where
  start: "reachable uc config worker_start"
| step: "reachable uc config w \<Longrightarrow> worker_step uc config w w' \<Longrightarrow> reachable uc config w'"

lemma reachable_steps: "(worker_step uc config)\<^sup>*\<^sup>* w w' \<Longrightarrow> reachable uc config w \<Longrightarrow> reachable uc config w'"
  by (induction rule: rtranclp_induct) (auto intro: reachable.step)

text \<open>
  The invariant: a running task has done a prefix of the run of its handler in its environment, with the resolver
  and the configuration of the worker, and a finished one such a run.
\<close>

definition task_fits :: "(rstr \<Rightarrow> rstr) \<Rightarrow> proxy_config \<Rightarrow> task \<Rightarrow> bool" where
  "task_fits uc config t =
     (case t of Running _ env h \<Rightarrow> prefix h (snd (task_run uc config env))
      | Finished _ r h \<Rightarrow> \<exists>env. task_run uc config env = (r, h))"

lemma list_all_update: "list_all P xs \<Longrightarrow> P x \<Longrightarrow> list_all P (xs[i := x])"
  by (auto simp: list_all_iff dest: set_update_subset_insert [THEN subsetD])

lemma worker_step_fits:
  assumes "worker_step uc config w w'" and "list_all (task_fits uc config) (tasks w)"
  shows "list_all (task_fits uc config) (tasks w')"
  using assms(1)
proof (cases rule: worker_step.cases)
  case (task_ends i a env h r)
  then have "task_fits uc config (Finished a r h)"
    by (auto simp: task_fits_def)
  with task_ends(1) assms(2) show ?thesis by (simp add: list_all_update)
qed (use assms(2) in \<open>auto intro!: list_all_update simp: task_fits_def\<close>)

lemma reachable_fits: "reachable uc config w \<Longrightarrow> list_all (task_fits uc config) (tasks w)"
proof (induction rule: reachable.induct)
  case start
  show ?case by (simp add: worker_start_def)
next
  case (step w w')
  from step.hyps(2) step.IH show ?case by (rule worker_step_fits)
qed

text \<open>
  Isolation. What may have become of a task: it goes on along its own run, or has finished with it. No step
  moves, loses or changes it otherwise.
\<close>

definition becomes :: "(rstr \<Rightarrow> rstr) \<Rightarrow> proxy_config \<Rightarrow> task \<Rightarrow> task \<Rightarrow> bool" where
  "becomes uc config t t' =
     (case t of
        Finished _ _ _ \<Rightarrow> t' = t
      | Running a env h \<Rightarrow>
          (case t' of
             Running a' env' h' \<Rightarrow> a' = a \<and> env' = env \<and> prefix h h'
           | Finished a' r h' \<Rightarrow> a' = a \<and> task_run uc config env = (r, h')))"

lemma becomes_simps [simp]:
  "becomes uc config (Finished a r h) t' \<longleftrightarrow> t' = Finished a r h"
  "becomes uc config (Running a env h) (Running a' env' h') \<longleftrightarrow> a' = a \<and> env' = env \<and> prefix h h'"
  "becomes uc config (Running a env h) (Finished a' r h') \<longleftrightarrow> a' = a \<and> task_run uc config env = (r, h')"
  by (auto simp: becomes_def)

lemma becomes_refl [simp]: "becomes uc config t t"
  by (cases t) simp_all

lemma becomes_trans: "becomes uc config t t' \<Longrightarrow> becomes uc config t' t'' \<Longrightarrow> becomes uc config t t''"
  by (auto simp: becomes_def split: task.splits)

lemma worker_step_becomes:
  assumes "worker_step uc config w w'" and "i < length (tasks w)"
  shows "i < length (tasks w') \<and> becomes uc config (tasks w ! i) (tasks w' ! i)"
  using assms by (auto elim!: worker_stepE simp: nth_append nth_list_update)

text \<open>Every accepted connection can be carried to the end of its run, event by event.\<close>

lemma task_advances:
  assumes "n \<le> length (snd (task_run uc config env))"
  shows "(worker_step uc config)\<^sup>*\<^sup>* (w\<lparr>tasks := ts @ [Running a env []]\<rparr>)
    (w\<lparr>tasks := ts @ [Running a env (take n (snd (task_run uc config env)))]\<rparr>)"
  using assms
proof (induction n)
  case (Suc n)
  let ?h = "snd (task_run uc config env)"
  have t: "take n ?h @ [?h ! n] = take (Suc n) ?h"
    using Suc.prems by (simp add: take_Suc_conv_app_nth)
  have "worker_step uc config (w\<lparr>tasks := ts @ [Running a env (take n ?h)]\<rparr>)
      (w\<lparr>tasks := ts @ [Running a env (take (Suc n) ?h)]\<rparr>)"
    using worker_step.task_event [of "length ts" "w\<lparr>tasks := ts @ [Running a env (take n ?h)]\<rparr>" a env "take n ?h" "?h ! n"
        uc config] by (simp add: t take_is_prefix)
  with Suc show ?case by (meson Suc_leD rtranclp.rtrancl_into_rtrancl)
qed simp

lemma client_served:
  assumes "task_run uc config env = (r, h)"
  shows "(worker_step uc config)\<^sup>*\<^sup>* w (w\<lparr>tasks := tasks w @ [Finished a r h]\<rparr>)"
proof -
  let ?w = "\<lambda>t. w\<lparr>tasks := tasks w @ [t]\<rparr>"
  have "worker_step uc config w (?w (Running a env []))"
    by (rule worker_step.accepted)
  moreover have "(worker_step uc config)\<^sup>*\<^sup>* (?w (Running a env [])) (?w (Running a env h))"
    using task_advances [of "length h" uc config env "tasks w" a w] assms by simp
  moreover have "worker_step uc config (?w (Running a env h)) (?w (Finished a r h))"
    using worker_step.task_ends [of "length (tasks w)" "?w (Running a env h)" a env h uc config r] assms by simp
  ultimately show ?thesis
    by (meson converse_rtranclp_into_rtranclp rtranclp.rtrancl_into_rtrancl)
qed


section \<open>Properties\<close>

definition example_client :: socket_addr where
  "example_client = \<lparr>sa_ip = V4 10 0 0 2, sa_port = 50000\<rparr>"

text \<open>A client that connects and closes at once, and a second one that has only connected so far.\<close>

definition example_worker :: worker where
  "example_worker =
     \<lparr>tasks = [Finished example_client (Ok ()) [Option_Set Client Nodelay, Received Client []],
               Running example_client calm_env [Option_Set Client Nodelay]],
      accept_errors = 0\<rparr>"

lemma example_run: "task_run uc config calm_env = (Ok (), [Option_Set Client Nodelay, Received Client []])"
  by (simp add: task_run_def handle_client_def bindI_def set_option_def tcp_read_def calm_env_def okI_def)

lemma example_worker_reachable: "reachable uc example_config example_worker"
proof -
  let ?done = "Finished example_client (Ok ()) [Option_Set Client Nodelay, Received Client []]"
  have w: "worker_start\<lparr>tasks := tasks worker_start @ [?done]\<rparr> = \<lparr>tasks = [?done], accept_errors = 0\<rparr>"
    by (simp add: worker_start_def)
  from client_served [OF example_run, of uc example_config worker_start example_client]
  have "reachable uc example_config \<lparr>tasks = [?done], accept_errors = 0\<rparr>"
    unfolding w by (rule reachable_steps [OF _ reachable.start])
  moreover have "worker_step uc example_config \<lparr>tasks = [?done], accept_errors = 0\<rparr>
      \<lparr>tasks = [?done] @ [Running example_client calm_env []], accept_errors = 0\<rparr>"
    using worker_step.accepted [of uc example_config "\<lparr>tasks = [?done], accept_errors = 0\<rparr>" example_client calm_env]
    by simp
  ultimately have r: "reachable uc example_config
      \<lparr>tasks = [?done] @ [Running example_client calm_env []], accept_errors = 0\<rparr>"
    by (rule reachable.step)
  have "(worker_step uc example_config)\<^sup>*\<^sup>* \<lparr>tasks = [?done] @ [Running example_client calm_env []], accept_errors = 0\<rparr>
      example_worker"
    using task_advances [of 1 uc example_config calm_env "[?done]" example_client "\<lparr>tasks = [], accept_errors = 0\<rparr>"]
    by (simp add: example_run example_worker_def)
  then show ?thesis by (rule reachable_steps [OF _ r])
qed

text \<open>
  The listener opens exactly when creating the socket, making it non-blocking, binding, listening and
  handing it to tokio all succeed; the two reuse options do not matter; the socket has the family of the
  bind address, and is bound to it before it listens.
\<close>

lemma listener_opens_iff:
  "snd (open_listener reuse_port fails config) \<longleftrightarrow>
     \<not> (fails (New_Socket (is_ipv6 (sa_ip (bind_addr config)))) \<or> fails Set_Nonblocking \<or>
        fails (Bind_Listener (bind_addr config)) \<or> fails (Listen 1024) \<or> fails From_Std)"
  by (auto simp: open_listener_def split: prod.splits)

text \<open>
  A configuration from the command line: an IPv4 bind address and any port give a listener address
  with exactly this address and port, and every other option is carried over unchanged.
\<close>

lemma config_carries_options:
  "config_of_cli (c\<lparr>cli_bind := show_ipv4 x y z w, cli_port := p\<rparr>) = Some
     \<lparr>bind_addr = \<lparr>sa_ip = V4 x y z w, sa_port = p\<rparr>, config_dns_addr = cli_dns_addr c,
      fake_ttl = cli_fake_ttl c, fake_sni = cli_fake_sni c, window_shrink = cli_window_shrink c,
      http_space = cli_http_space c, mix_header_case = cli_mix_header_case c,
      strip_alt_svc = cli_strip_alt_svc c, port_rotate = cli_port_rotate c,
      trailing_dot = cli_trailing_dot c, filter_type65 = cli_filter_type65 c,
      fallback_target = cli_fallback_target c\<rparr>"
  using parse_socket_addr_show [of x y z w p] by (simp add: config_of_cli_def lit_def)

text \<open>
  An IPv6 bind address must be written in brackets: without them the program ends with an error.
\<close>

lemma ipv6_bind_needs_brackets:
  "main 4294967295 pf (map Some [lit ''greentunnelRS'', lit ''--bind'', lit ''::1'']) = ([], [Ends_With_Error]) \<and>
   parse_socket_addr (lit ''[::1]'' @ lit '':'' @ show_int 8080) =
     Some \<lparr>sa_ip = V6 [0, 0, 0, 0, 0, 0, 0, 1], sa_port = 8080\<rparr>"
proof
  have m: "lit ''--bind'' \<in> set value_options" by (simp add: value_options_def)
  have "parse_cli 4294967295 (map Some [lit ''greentunnelRS'', lit ''--bind'', lit ''::1'']) =
      Val (Parsed (default_cli\<lparr>cli_bind := lit ''::1''\<rparr>))"
    by (simp add: parse_cli_def parse_from_def value_option_step [OF m] assign_key_def)
  moreover have "parse_socket_addr (lit ''::1'' @ lit '':'' @ show_int (uint (8080 :: u16))) = None"
    by code_simp
  ultimately show "main 4294967295 pf (map Some [lit ''greentunnelRS'', lit ''--bind'', lit ''::1'']) =
      ([], [Ends_With_Error])"
    by (simp add: main_def config_of_cli_def default_cli_def)
  show "parse_socket_addr (lit ''[::1]'' @ lit '':'' @ show_int 8080) =
      Some \<lparr>sa_ip = V6 [0, 0, 0, 0, 0, 0, 0, 1], sa_port = 8080\<rparr>"
    by code_simp
qed

text \<open>An argument that is not Unicode ends the program in a panic, before anything is printed, wherever it stands.\<close>

lemma non_unicode_argument_panics: "None \<in> set args \<Longrightarrow> main m pf args = ([], [Ends_In_Panic])"
  by (simp add: main_def parse_cli_def collect_args_eq)

text \<open>
  When no worker can bind its address (the port is taken, for instance) the process does not fail: the
  errors are only logged, the threads are joined, and the program ends with success without having
  served anything.
\<close>

lemma bind_failure_ends_with_success:
  assumes "list_all (\<lambda>w. \<not> spawn_fails pf w \<and> \<not> runtime_fails pf w \<and> setup_fails pf w (Bind_Listener (bind_addr config)))
      [0..<num_workers (is_windows pf) (parallelism pf)]"
  shows "run_server pf config = [Ends_Ok]"
proof -
  let ?ws = "[0..<num_workers (is_windows pf) (parallelism pf)]"
  have "find (spawn_fails pf) ?ws = None" "\<not> list_ex (runtime_fails pf) ?ws"
    using assms by (auto simp: find_None_iff list_ex_iff list_all_iff)
  moreover have "\<not> worker_serves pf config w" if "w \<in> set ?ws" for w
    using assms that by (auto simp: list_all_iff worker_serves_def open_listener_def split: prod.splits)
  ultimately show ?thesis
    by (simp add: run_server_def aborts_def Let_def)
qed

lemma bind_failure_ends_with_success_example:
  "run_server \<lparr>is_windows = False, has_reuse_port = True, panic_aborts = True, parallelism = Some 4,
     spawn_fails = (\<lambda>w. False), runtime_fails = (\<lambda>w. False),
     setup_fails = (\<lambda>w c. c = Bind_Listener (bind_addr example_config))\<rparr> example_config = [Ends_Ok]"
  by (rule bind_failure_ends_with_success) (simp add: num_workers_def upt_rec)

text \<open>
  In a release build one runtime that cannot be built ends the whole process, also when all other workers
  could serve.
\<close>

lemma runtime_failure_aborts_release:
  assumes "panic_aborts pf" and "list_all (\<lambda>w. \<not> spawn_fails pf w) [0..<num_workers (is_windows pf) (parallelism pf)]"
    and "w < num_workers (is_windows pf) (parallelism pf)" and "runtime_fails pf w"
  shows "run_server pf config = [Ends_In_Panic]"
proof -
  have "find (spawn_fails pf) [0..<num_workers (is_windows pf) (parallelism pf)] = None"
    using assms(2) by (auto simp: find_None_iff list_all_iff)
  with assms(1,3,4) show ?thesis
    by (auto simp: run_server_def aborts_def list_ex_iff Let_def)
qed

text \<open>
  The log filter shows errors, warnings and info lines always, debug lines only with the
  verbose switch, and trace lines never.
\<close>

lemma log_filter_levels:
  "filter (enabled False) [ERROR, WARN, INFO, DEBUG, TRACE] = [ERROR, WARN, INFO] \<and>
   filter (enabled True) [ERROR, WARN, INFO, DEBUG, TRACE] = [ERROR, WARN, INFO, DEBUG]"
  by code_simp

end
