(* ===== verification/Process.thy ===== *)
theory Process
  imports Server
begin

text \<open>
  The whole process: the main thread of \<open>run_server\<close> in \<^verbatim>\<open>src/proxy.rs\<close>, which starts the worker
  threads one after the other and then joins them in the same order, and the worker threads, as one
  step relation in which they interleave. A panic of a thread ends the thread, or the whole process in a build
  whose panics abort. \<open>Server.run_server\<close> computes how the process may end from the
  calls that fail; here it is shown to be what the interleaved execution does: no schedule ends
  otherwise, every end occurs, and from every reachable state some end can still be reached. The
  connections of the workers keep to themselves.
\<close>

section \<open>The threads\<close>

text \<open>
  A worker thread is \<open>Over\<close> when its runtime has panicked (and the panic has unwound) or its listener has
  returned an error.
\<close>

datatype thread = Starting | Working worker | Over

datatype main_thread = Spawning nat | Joining nat | Returned server_end

record process =
  main_thread :: main_thread
  threads :: "thread list"

definition process_start :: process where
  "process_start = \<lparr>main_thread = Spawning 0, threads = []\<rparr>"

definition alive :: "process \<Rightarrow> bool" where
  "alive p \<longleftrightarrow> (case main_thread p of Returned _ \<Rightarrow> False | _ \<Rightarrow> True)"

definition workers :: "platform \<Rightarrow> nat" where
  "workers pf = num_workers (is_windows pf) (parallelism pf)"

inductive process_step ::
  "(rstr \<Rightarrow> rstr) \<Rightarrow> platform \<Rightarrow> proxy_config \<Rightarrow> process \<Rightarrow> process \<Rightarrow> bool" for uc pf config where
  spawned:
    "main_thread p = Spawning k \<Longrightarrow> k < workers pf \<Longrightarrow> \<not> spawn_fails pf k \<Longrightarrow>
     process_step uc pf config p (p\<lparr>main_thread := Spawning (Suc k), threads := threads p @ [Starting]\<rparr>)"
| spawn_failed:
    "main_thread p = Spawning k \<Longrightarrow> k < workers pf \<Longrightarrow> spawn_fails pf k \<Longrightarrow>
     process_step uc pf config p (p\<lparr>main_thread := Returned Ends_With_Error\<rparr>)"
| all_spawned:
    "main_thread p = Spawning (workers pf) \<Longrightarrow> process_step uc pf config p (p\<lparr>main_thread := Joining 0\<rparr>)"
| joined:
    "main_thread p = Joining k \<Longrightarrow> k < length (threads p) \<Longrightarrow> threads p ! k = Over \<Longrightarrow>
     process_step uc pf config p (p\<lparr>main_thread := Joining (Suc k)\<rparr>)"
| all_joined:
    "main_thread p = Joining (length (threads p)) \<Longrightarrow>
     process_step uc pf config p (p\<lparr>main_thread := Returned Ends_Ok\<rparr>)"
| listens:
    "alive p \<Longrightarrow> i < length (threads p) \<Longrightarrow> threads p ! i = Starting \<Longrightarrow> worker_serves pf config i \<Longrightarrow>
     process_step uc pf config p (p\<lparr>threads := (threads p)[i := Working worker_start]\<rparr>)"
| listener_failed:
    "alive p \<Longrightarrow> i < length (threads p) \<Longrightarrow> threads p ! i = Starting \<Longrightarrow>
     \<not> runtime_fails pf i \<Longrightarrow> \<not> worker_serves pf config i \<Longrightarrow>
     process_step uc pf config p (p\<lparr>threads := (threads p)[i := Over]\<rparr>)"
| runtime_panic_unwinds:
    "alive p \<Longrightarrow> i < length (threads p) \<Longrightarrow> threads p ! i = Starting \<Longrightarrow> runtime_fails pf i \<Longrightarrow> \<not> panic_aborts pf \<Longrightarrow>
     process_step uc pf config p (p\<lparr>threads := (threads p)[i := Over]\<rparr>)"
| runtime_panic_aborts:
    "alive p \<Longrightarrow> i < length (threads p) \<Longrightarrow> threads p ! i = Starting \<Longrightarrow> runtime_fails pf i \<Longrightarrow> panic_aborts pf \<Longrightarrow>
     process_step uc pf config p (p\<lparr>main_thread := Returned Ends_In_Panic\<rparr>)"
| task_panic_aborts:
    "alive p \<Longrightarrow> i < length (threads p) \<Longrightarrow> threads p ! i = Working w \<Longrightarrow> panic_aborts pf \<Longrightarrow>
     Finished client_addr Panicked h \<in> set (tasks w) \<Longrightarrow>
     process_step uc pf config p (p\<lparr>main_thread := Returned Ends_In_Panic\<rparr>)"
| works:
    "alive p \<Longrightarrow> i < length (threads p) \<Longrightarrow> threads p ! i = Working w \<Longrightarrow> worker_step uc config w w' \<Longrightarrow>
     process_step uc pf config p (p\<lparr>threads := (threads p)[i := Working w']\<rparr>)"

inductive process_reachable :: "(rstr \<Rightarrow> rstr) \<Rightarrow> platform \<Rightarrow> proxy_config \<Rightarrow> process \<Rightarrow> bool" for uc pf config where
  start: "process_reachable uc pf config process_start"
| step: "process_reachable uc pf config p \<Longrightarrow> process_step uc pf config p p' \<Longrightarrow> process_reachable uc pf config p'"

lemma process_reachable_steps:
  "(process_step uc pf config)\<^sup>*\<^sup>* p p' \<Longrightarrow> process_reachable uc pf config p \<Longrightarrow> process_reachable uc pf config p'"
  by (induction rule: rtranclp_induct) (auto intro: process_reachable.step)


section \<open>The invariant\<close>

text \<open>Every thread is where its start-up leads, and the state of a working one is one a worker can reach.\<close>

definition takes_down :: "platform \<Rightarrow> nat \<Rightarrow> bool" where
  "takes_down pf i \<longleftrightarrow> panic_aborts pf \<and> runtime_fails pf i"

definition thread_ok :: "(rstr \<Rightarrow> rstr) \<Rightarrow> platform \<Rightarrow> proxy_config \<Rightarrow> nat \<Rightarrow> thread \<Rightarrow> bool" where
  "thread_ok uc pf config i t =
     (case t of Starting \<Rightarrow> True | Working w \<Rightarrow> worker_serves pf config i \<and> reachable uc config w
      | Over \<Rightarrow> \<not> worker_serves pf config i \<and> \<not> takes_down pf i)"

definition main_ok :: "platform \<Rightarrow> process \<Rightarrow> bool" where
  "main_ok pf p =
     (case main_thread p of
        Spawning k \<Rightarrow> k \<le> workers pf \<and> length (threads p) = k
      | Joining k \<Rightarrow> k \<le> workers pf \<and> length (threads p) = workers pf \<and> (\<forall>i < k. threads p ! i = Over)
      | Returned e \<Rightarrow> length (threads p) \<le> workers pf \<and>
          ((e = Ends_Ok \<and> length (threads p) = workers pf \<and> (\<forall>i < workers pf. threads p ! i = Over)) \<or>
           (e = Ends_With_Error \<and> (\<exists>k < workers pf. spawn_fails pf k)) \<or>
           (e = Ends_In_Panic \<and> (\<exists>i < length (threads p). takes_down pf i))))"

definition process_inv :: "(rstr \<Rightarrow> rstr) \<Rightarrow> platform \<Rightarrow> proxy_config \<Rightarrow> process \<Rightarrow> bool" where
  "process_inv uc pf config p \<longleftrightarrow> main_ok pf p \<and>
     (\<forall>i < length (threads p). \<not> spawn_fails pf i \<and> thread_ok uc pf config i (threads p ! i))"

lemma task_run_never_panics: "fst (task_run uc config env) \<noteq> Panicked"
  using doesD [OF emits_handle_client [unfolded emits_def], of uc env "worker_resolver config" config "[]"]
  by (auto simp: task_run_def)

lemma reachable_no_panic:
  assumes "reachable uc config w"
  shows "Finished a Panicked h \<notin> set (tasks w)"
proof
  assume "Finished a Panicked h \<in> set (tasks w)"
  then obtain env where "task_run uc config env = (Panicked, h)"
    using reachable_fits [OF assms] by (fastforce simp: list_all_iff task_fits_def)
  with task_run_never_panics [of uc config env] show False by simp
qed

lemma main_ok_threads:
  assumes "main_ok pf p" and "alive p" and "i < length (threads p)" and "threads p ! i \<noteq> Over"
  shows "main_ok pf (p\<lparr>threads := (threads p)[i := t]\<rparr>)"
  using assms by (auto simp: main_ok_def alive_def nth_list_update split: main_thread.splits)

lemma process_inv_update:
  assumes "process_inv uc pf config p" and "alive p" and "i < length (threads p)" and "threads p ! i \<noteq> Over"
    and "thread_ok uc pf config i t"
  shows "process_inv uc pf config (p\<lparr>threads := (threads p)[i := t]\<rparr>)"
  using assms main_ok_threads [of pf p i t] by (auto simp: process_inv_def nth_list_update)

lemma process_step_inv:
  assumes "process_step uc pf config p p'" and "process_inv uc pf config p"
  shows "process_inv uc pf config p'"
  using assms
proof (induction rule: process_step.induct)
  case (spawned p k)
  then show ?case by (auto simp: process_inv_def main_ok_def thread_ok_def nth_append less_Suc_eq)
next
  case (joined p k)
  then show ?case by (auto simp: process_inv_def main_ok_def less_Suc_eq)
next
  case (listens p i)
  then show ?case by (intro process_inv_update) (simp_all add: thread_ok_def reachable.start)
next
  case (listener_failed p i)
  then show ?case by (intro process_inv_update) (simp_all add: thread_ok_def takes_down_def)
next
  case (runtime_panic_unwinds p i)
  then show ?case by (intro process_inv_update) (simp_all add: thread_ok_def takes_down_def worker_serves_def)
next
  case (runtime_panic_aborts p i)
  then show ?case
    by (auto simp: process_inv_def main_ok_def alive_def takes_down_def split: main_thread.splits)
next
  case (task_panic_aborts p i w a h)
  then have "reachable uc config w" by (auto simp: process_inv_def thread_ok_def)
  with task_panic_aborts reachable_no_panic show ?case by blast
next
  case (works p i w w')
  then have "thread_ok uc pf config i (Working w)" by (auto simp: process_inv_def)
  with works show ?case
    by (intro process_inv_update) (auto simp: thread_ok_def intro: reachable.step)
qed (auto simp: process_inv_def main_ok_def)

lemma process_reachable_inv: "process_reachable uc pf config p \<Longrightarrow> process_inv uc pf config p"
proof (induction rule: process_reachable.induct)
  case start
  show ?case by (simp add: process_inv_def process_start_def main_ok_def)
next
  case (step p p')
  then show ?case by (blast intro: process_step_inv)
qed

lemma process_reachable_worker:
  "process_reachable uc pf config p \<Longrightarrow> i < length (threads p) \<Longrightarrow> threads p ! i = Working w \<Longrightarrow> reachable uc config w"
  by (drule process_reachable_inv) (auto simp: process_inv_def thread_ok_def)

text \<open>A step of the process leaves the connections of every worker to their own runs.\<close>

lemma process_step_becomes:
  assumes "process_step uc pf config p p'" and "i < length (threads p)" and "threads p ! i = Working w"
    and "k < length (tasks w)"
  shows "\<exists>w'. i < length (threads p') \<and> threads p' ! i = Working w' \<and> k < length (tasks w') \<and>
    becomes uc config (tasks w ! k) (tasks w' ! k)"
  using assms
proof (induction rule: process_step.induct)
  case (works p j v v')
  then show ?case
    using worker_step_becomes [of uc config v v' k] by (cases "j = i") (auto simp: nth_list_update)
qed (auto simp: nth_append nth_list_update)

lemma process_steps_becomes:
  assumes "(process_step uc pf config)\<^sup>*\<^sup>* p p'" and "i < length (threads p)" and "threads p ! i = Working w"
    and "k < length (tasks w)"
  shows "\<exists>w'. i < length (threads p') \<and> threads p' ! i = Working w' \<and> k < length (tasks w') \<and>
    becomes uc config (tasks w ! k) (tasks w' ! k)"
  using assms
proof (induction rule: rtranclp_induct)
  case base
  then show ?case by simp
next
  case (step p' p'')
  then obtain w' where w': "i < length (threads p')" "threads p' ! i = Working w'" "k < length (tasks w')"
    "becomes uc config (tasks w ! k) (tasks w' ! k)" by blast
  from process_step_becomes [OF step.hyps(2) w'(1-3)] w'(4) show ?case
    using becomes_trans by blast
qed


section \<open>The end of the process\<close>

lemma first_failure:
  "find P [0..<n] = Some k \<longleftrightarrow> k < n \<and> P k \<and> (\<forall>i < k. \<not> P i)"
  "find P [0..<n] = None \<longleftrightarrow> (\<forall>k < n. \<not> P k)"
  by (auto simp: find_Some_iff find_None_iff)

lemma aborts_iff: "aborts pf k \<longleftrightarrow> (\<exists>i < k. takes_down pf i)"
  by (auto simp: aborts_def takes_down_def list_ex_iff)

lemma run_server_ends:
  "e \<in> set (run_server pf config) \<longleftrightarrow>
     (\<exists>k < workers pf. spawn_fails pf k \<and> (\<forall>i < k. \<not> spawn_fails pf i) \<and>
        (e = Ends_With_Error \<or> (e = Ends_In_Panic \<and> aborts pf k))) \<or>
     ((\<forall>k < workers pf. \<not> spawn_fails pf k) \<and>
        (if aborts pf (workers pf) then e = Ends_In_Panic
         else if \<forall>i < workers pf. \<not> worker_serves pf config i then e = Ends_Ok
         else e = Serving (filter (worker_serves pf config) [0..<workers pf])))"
proof (cases "find (spawn_fails pf) [0..<workers pf]")
  case None
  then have "run_server pf config =
      (if aborts pf (workers pf) then [Ends_In_Panic]
       else if \<forall>i < workers pf. \<not> worker_serves pf config i then [Ends_Ok]
       else [Serving (filter (worker_serves pf config) [0..<workers pf])])"
    by (auto simp: run_server_def workers_def Let_def filter_empty_conv)
  moreover have "\<forall>k < workers pf. \<not> spawn_fails pf k"
    using None by (simp add: first_failure)
  ultimately show ?thesis by auto
next
  case (Some k)
  then have k: "k < workers pf" "spawn_fails pf k" "\<forall>i < k. \<not> spawn_fails pf i"
    by (simp_all add: first_failure)
  then have u: "k' = k" if "k' < workers pf" "spawn_fails pf k'" "\<forall>i < k'. \<not> spawn_fails pf i" for k'
    using that by (metis linorder_neqE_nat)
  have "set (run_server pf config) = {e. e = Ends_With_Error \<or> (e = Ends_In_Panic \<and> aborts pf k)}"
    using Some by (auto simp: run_server_def workers_def Let_def)
  then have e: "e \<in> set (run_server pf config) \<longleftrightarrow> e = Ends_With_Error \<or> (e = Ends_In_Panic \<and> aborts pf k)"
    by simp
  have q: "(\<exists>k' < workers pf. spawn_fails pf k' \<and> (\<forall>i < k'. \<not> spawn_fails pf i) \<and> Q k') \<longleftrightarrow> Q k" for Q
    using k u by blast
  have no: "(\<forall>k < workers pf. \<not> spawn_fails pf k) = False"
    using k by blast
  show ?thesis
    unfolding e q by (simp only: no simp_thms)
qed

lemma returned_agrees:
  assumes "process_inv uc pf config p" and "main_thread p = Returned e"
  shows "e \<in> set (run_server pf config)"
proof -
  have t: "\<not> spawn_fails pf i \<and> thread_ok uc pf config i (threads p ! i)" if "i < length (threads p)" for i
    using assms(1) that by (simp add: process_inv_def)
  from assms have m: "length (threads p) \<le> workers pf" "main_ok pf p"
    by (simp_all add: process_inv_def main_ok_def)
  show ?thesis
  proof (cases "\<exists>k < workers pf. spawn_fails pf k")
    case True
    then obtain k where k: "k < workers pf" "spawn_fails pf k" "\<forall>i < k. \<not> spawn_fails pf i"
      using exists_least_iff [of "\<lambda>k. k < workers pf \<and> spawn_fails pf k"] by (auto dest: less_trans)
    with t m(1) have "length (threads p) \<le> k" by (meson not_le_imp_less)
    moreover have "e = Ends_With_Error \<or> (e = Ends_In_Panic \<and> (\<exists>i < length (threads p). takes_down pf i))"
      using m(2) t True assms(2) by (auto simp: main_ok_def)
    ultimately show ?thesis
      using k unfolding run_server_ends aborts_iff by (meson order_less_le_trans)
  next
    case False
    with m(2) assms(2) consider "e = Ends_Ok" "length (threads p) = workers pf" "\<forall>i < workers pf. threads p ! i = Over"
      | "e = Ends_In_Panic" "\<exists>i < length (threads p). takes_down pf i"
      by (auto simp: main_ok_def)
    then show ?thesis
    proof cases
      case 1
      with t have "\<not> worker_serves pf config i \<and> \<not> takes_down pf i" if "i < workers pf" for i
        using that by (auto simp: thread_ok_def dest: t)
      with 1 False show ?thesis by (auto simp: run_server_ends aborts_iff)
    next
      case 2
      with m(1) have "aborts pf (workers pf)" unfolding aborts_iff by (meson order_less_le_trans)
      with 2 False show ?thesis by (simp add: run_server_ends)
    qed
  qed
qed

text \<open>A state in which the start-up is over.\<close>

definition is_working :: "thread \<Rightarrow> bool" where
  "is_working t = (case t of Working _ \<Rightarrow> True | _ \<Rightarrow> False)"

definition settled :: "process \<Rightarrow> bool" where
  "settled p =
     (case main_thread p of
        Spawning _ \<Rightarrow> False
      | Joining k \<Rightarrow> Starting \<notin> set (threads p) \<and> k < length (threads p) \<and> is_working (threads p ! k)
      | Returned _ \<Rightarrow> True)"

definition start_work :: "thread \<Rightarrow> nat" where
  "start_work t = (if t = Starting then 1 else 0)"

definition steps_left :: "platform \<Rightarrow> process \<Rightarrow> nat" where
  "steps_left pf p =
     (case main_thread p of
        Spawning k \<Rightarrow> 2 * (workers pf - k) + workers pf + 3
      | Joining k \<Rightarrow> workers pf - k + 1
      | Returned _ \<Rightarrow> 0) + sum_list (map start_work (threads p))"

lemma start_work_update:
  assumes "i < length ts" and "ts ! i = Starting" and "t \<noteq> Starting"
  shows "sum_list (map start_work (ts[i := t])) < sum_list (map start_work ts)"
proof -
  have "start_work (ts ! i) \<le> sum_list (map start_work ts)"
    using assms(1) by (intro member_le_sum_list) auto
  with assms show ?thesis
    by (simp add: map_update sum_list_update start_work_def)
qed

lemma thread_starts:
  assumes "alive p" and "i < length (threads p)" and "threads p ! i = Starting"
  shows "\<exists>p'. process_step uc pf config p p' \<and> steps_left pf p' < steps_left pf p"
proof -
  let ?p = "\<lambda>t. p\<lparr>threads := (threads p)[i := t]\<rparr>"
  have less: "steps_left pf (?p t) < steps_left pf p" if "t \<noteq> Starting" for t
    using start_work_update [OF assms(2,3) that] by (simp add: steps_left_def)
  have down: "steps_left pf (p\<lparr>main_thread := Returned Ends_In_Panic\<rparr>) < steps_left pf p"
    using assms(1) by (simp add: steps_left_def alive_def split: main_thread.splits)
  consider "worker_serves pf config i" | "\<not> runtime_fails pf i" "\<not> worker_serves pf config i"
    | "runtime_fails pf i" "panic_aborts pf" | "runtime_fails pf i" "\<not> panic_aborts pf"
    by (auto simp: worker_serves_def)
  then show ?thesis
  proof cases
    case 1
    then show ?thesis using process_step.listens [OF assms] less [of "Working worker_start"] by blast
  next
    case 2
    then show ?thesis using process_step.listener_failed [OF assms] less [of Over] by blast
  next
    case 3
    then show ?thesis using process_step.runtime_panic_aborts [OF assms] down by blast
  next
    case 4
    then show ?thesis using process_step.runtime_panic_unwinds [OF assms] less [of Over] by blast
  qed
qed

lemma progressI:
  "process_step uc pf config p p' \<Longrightarrow> steps_left pf p' < steps_left pf p \<Longrightarrow>
   \<exists>p'. process_step uc pf config p p' \<and> steps_left pf p' < steps_left pf p"
  by blast

lemma process_progress:
  assumes "process_inv uc pf config p" and "\<not> settled p"
  shows "\<exists>p'. process_step uc pf config p p' \<and> steps_left pf p' < steps_left pf p"
proof (cases "main_thread p")
  case (Spawning k)
  show ?thesis
  proof (cases "k < workers pf")
    case True
    show ?thesis
    proof (cases "spawn_fails pf k")
      case fails: True
      show ?thesis
        by (rule progressI [OF process_step.spawn_failed [OF Spawning True fails]])
          (simp add: steps_left_def Spawning)
    next
      case False
      show ?thesis
        by (rule progressI [OF process_step.spawned [OF Spawning True False]])
          (use True in \<open>simp add: steps_left_def Spawning start_work_def\<close>)
    qed
  next
    case False
    with assms(1) Spawning have k: "main_thread p = Spawning (workers pf)"
      by (simp add: process_inv_def main_ok_def)
    show ?thesis
      by (rule progressI [OF process_step.all_spawned [OF k]]) (simp add: steps_left_def k)
  qed
next
  case (Joining k)
  then have n: "k \<le> workers pf" "length (threads p) = workers pf" and "alive p"
    using assms(1) by (simp_all add: process_inv_def main_ok_def alive_def)
  show ?thesis
  proof (cases "Starting \<in> set (threads p)")
    case True
    then obtain i where "i < length (threads p)" "threads p ! i = Starting"
      by (auto simp: in_set_conv_nth)
    with \<open>alive p\<close> show ?thesis by (rule thread_starts)
  next
    case False
    show ?thesis
    proof (cases "k = workers pf")
      case True
      with Joining n have "main_thread p = Joining (length (threads p))" by simp
      then show ?thesis
        by (rule progressI [OF process_step.all_joined]) (simp add: steps_left_def Joining)
    next
      case k: False
      with n have less: "k < length (threads p)" by simp
      with False assms(2) Joining have "threads p ! k = Over"
        by (cases "threads p ! k") (auto simp: settled_def is_working_def dest: nth_mem)
      then show ?thesis
        by (rule progressI [OF process_step.joined [OF Joining less]])
          (use less n in \<open>simp add: steps_left_def Joining\<close>)
    qed
  qed
next
  case (Returned e)
  with assms(2) show ?thesis by (simp add: settled_def)
qed

lemma process_settles:
  "process_inv uc pf config p \<Longrightarrow>
   \<exists>p'. (process_step uc pf config)\<^sup>*\<^sup>* p p' \<and> process_inv uc pf config p' \<and> settled p'"
proof (induction "steps_left pf p" arbitrary: p rule: less_induct)
  case less
  show ?case
  proof (cases "settled p")
    case True
    with less.prems show ?thesis by blast
  next
    case False
    then obtain p' where p': "process_step uc pf config p p'" "steps_left pf p' < steps_left pf p"
      using process_progress less.prems by blast
    then obtain q where "(process_step uc pf config)\<^sup>*\<^sup>* p' q" "process_inv uc pf config q" "settled q"
      using less.hyps process_step_inv less.prems by blast
    with p'(1) show ?thesis by (blast intro: converse_rtranclp_into_rtranclp)
  qed
qed

text \<open>What a settled state looks like: the process has ended, or exactly its live workers serve.\<close>

definition has_ended_as :: "server_end \<Rightarrow> process \<Rightarrow> bool" where
  "has_ended_as e p =
     (case e of
        Serving live \<Rightarrow> alive p \<and> live = filter (\<lambda>i. is_working (threads p ! i)) [0..<length (threads p)]
      | _ \<Rightarrow> main_thread p = Returned e)"

lemma settled_end:
  assumes inv: "process_inv uc pf config p" and "settled p"
  shows "\<exists>e \<in> set (run_server pf config). has_ended_as e p"
proof (cases "main_thread p")
  case (Returned e)
  moreover from inv Returned have "has_ended_as e p"
    by (auto simp: has_ended_as_def process_inv_def main_ok_def)
  ultimately show ?thesis
    using returned_agrees [OF inv] by blast
next
  case (Joining k)
  with assms have n: "length (threads p) = workers pf" "k < workers pf" "is_working (threads p ! k)"
    and no: "Starting \<notin> set (threads p)"
    by (auto simp: settled_def process_inv_def main_ok_def)
  have w: "is_working (threads p ! i) = worker_serves pf config i \<and> \<not> takes_down pf i" if "i < workers pf" for i
  proof -
    from no that n(1) have "threads p ! i \<noteq> Starting" by (metis nth_mem)
    moreover from inv that n(1) have "thread_ok uc pf config i (threads p ! i)"
      by (simp add: process_inv_def)
    ultimately show ?thesis
      by (auto simp: is_working_def thread_ok_def takes_down_def worker_serves_def split: thread.splits)
  qed
  have "\<forall>i < workers pf. \<not> spawn_fails pf i"
    using inv n(1) by (simp add: process_inv_def)
  with w n(2,3) have "Serving (filter (worker_serves pf config) [0..<workers pf]) \<in> set (run_server pf config)"
    by (auto simp: run_server_ends aborts_iff)
  moreover have "filter (worker_serves pf config) [0..<workers pf] =
      filter (\<lambda>i. is_working (threads p ! i)) [0..<length (threads p)]"
    unfolding n(1) using w by (intro filter_cong) auto
  ultimately show ?thesis
    using Joining by (intro bexI [of _ "Serving (filter (worker_serves pf config) [0..<workers pf])"])
      (simp_all add: has_ended_as_def alive_def)
next
  case (Spawning k)
  with assms(2) show ?thesis by (simp add: settled_def)
qed

lemma process_reaches_end:
  assumes "process_reachable uc pf config p"
  shows "\<exists>e p'. e \<in> set (run_server pf config) \<and> (process_step uc pf config)\<^sup>*\<^sup>* p p' \<and> has_ended_as e p'"
  using process_settles [OF process_reachable_inv [OF assms]] settled_end by blast

text \<open>The two ends there may be when a thread cannot be spawned.\<close>

lemma spawning_reachable:
  assumes "k \<le> workers pf" and "\<forall>i < k. \<not> spawn_fails pf i"
  shows "process_reachable uc pf config \<lparr>main_thread = Spawning k, threads = replicate k Starting\<rparr>"
  using assms
proof (induction k)
  case 0
  then show ?case
    using process_reachable.start by (simp add: process_start_def)
next
  case (Suc k)
  let ?p = "\<lparr>main_thread = Spawning k, threads = replicate k Starting\<rparr>"
  have "process_step uc pf config ?p \<lparr>main_thread = Spawning (Suc k), threads = replicate (Suc k) Starting\<rparr>"
    using process_step.spawned [of ?p k pf uc config] Suc.prems
    by (simp add: replicate_append_same [symmetric])
  with Suc show ?case by (auto intro: process_reachable.step)
qed

lemma abort_reachable:
  assumes "k \<le> workers pf" and "\<forall>i < k. \<not> spawn_fails pf i" and "aborts pf k"
  shows "\<exists>p. process_reachable uc pf config p \<and> main_thread p = Returned Ends_In_Panic"
proof -
  let ?p = "\<lparr>main_thread = Spawning k, threads = replicate k Starting\<rparr>"
  from assms(3) obtain i where "i < k" "takes_down pf i" by (auto simp: aborts_iff)
  then have "process_step uc pf config ?p (?p\<lparr>main_thread := Returned Ends_In_Panic\<rparr>)"
    by (intro process_step.runtime_panic_aborts [of _ i]) (simp_all add: alive_def takes_down_def)
  with spawning_reachable [OF assms(1,2), of uc config] show ?thesis
    by (auto intro: process_reachable.step)
qed

lemma error_reachable:
  assumes "k < workers pf" and "\<forall>i < k. \<not> spawn_fails pf i" and "spawn_fails pf k"
  shows "\<exists>p. process_reachable uc pf config p \<and> main_thread p = Returned Ends_With_Error"
proof -
  let ?p = "\<lparr>main_thread = Spawning k, threads = replicate k Starting\<rparr>"
  have "process_step uc pf config ?p (?p\<lparr>main_thread := Returned Ends_With_Error\<rparr>)"
    using assms(1,3) by (intro process_step.spawn_failed) simp_all
  with spawning_reachable [OF less_imp_le [OF assms(1)] assms(2), of uc config] show ?thesis
    by (auto intro: process_reachable.step)
qed


text \<open>What a worker does by itself the process does.\<close>

lemma working_steps:
  assumes "(worker_step uc config)\<^sup>*\<^sup>* w w'" and "alive p" and "i < length (threads p)" and "threads p ! i = Working w"
  shows "(process_step uc pf config)\<^sup>*\<^sup>* p (p\<lparr>threads := (threads p)[i := Working w']\<rparr>)"
  using assms(1)
proof (induction rule: rtranclp_induct)
  case base
  have "p\<lparr>threads := (threads p)[i := Working w]\<rparr> = p"
    using assms(4) by (metis (no_types, lifting) list_update_id process.surjective process.update_convs(2))
  then show ?case by simp
next
  case (step w' w'')
  let ?p = "p\<lparr>threads := (threads p)[i := Working w']\<rparr>"
  have "process_step uc pf config ?p (?p\<lparr>threads := (threads ?p)[i := Working w'']\<rparr>)"
    by (rule process_step.works [OF _ _ _ step.hyps(2)]) (use assms in \<open>simp_all add: alive_def\<close>)
  with step.IH show ?case by simp
qed


section \<open>Properties\<close>

definition is_end :: "server_end \<Rightarrow> bool" where
  "is_end e = (case e of Serving _ \<Rightarrow> False | _ \<Rightarrow> True)"

text \<open>
  C16: The computed ends of the server are the ends of its executions: some interleaving of the main thread
  and the workers ends the process with a result if and only if \<open>run_server\<close> lists this result. In
  particular a server of which one worker serves never returns; a runtime that cannot be built ends
  a process whose panics abort, and only its thread otherwise; and only a failing spawn beside such a
  runtime leaves it to the schedule which of two ends it is.
\<close>

theorem run_server_is_the_outcome:
  "(\<exists>p. process_reachable uc pf config p \<and> main_thread p = Returned e) \<longleftrightarrow>
   e \<in> set (run_server pf config) \<and> is_end e"
proof
  assume "\<exists>p. process_reachable uc pf config p \<and> main_thread p = Returned e"
  then obtain p where p: "process_inv uc pf config p" "main_thread p = Returned e"
    using process_reachable_inv by blast
  from returned_agrees [OF this] p show "e \<in> set (run_server pf config) \<and> is_end e"
    by (auto simp: process_inv_def main_ok_def is_end_def)
next
  assume e: "e \<in> set (run_server pf config) \<and> is_end e"
  show "\<exists>p. process_reachable uc pf config p \<and> main_thread p = Returned e"
  proof (cases "\<exists>k < workers pf. spawn_fails pf k")
    case True
    with e obtain k where k: "k < workers pf" "\<forall>i < k. \<not> spawn_fails pf i" "spawn_fails pf k"
      "e = Ends_With_Error \<or> (e = Ends_In_Panic \<and> aborts pf k)"
      by (auto simp: run_server_ends)
    then show ?thesis
      using error_reachable [OF k(1-3)] abort_reachable [OF less_imp_le [OF k(1)] k(2)] by blast
  next
    case False
    obtain e' p where p: "e' \<in> set (run_server pf config)" "(process_step uc pf config)\<^sup>*\<^sup>* process_start p"
      "has_ended_as e' p"
      using process_reaches_end [OF process_reachable.start] by blast
    from False e p(1) have "e' = e"
      by (auto simp: run_server_ends split: if_splits)
    moreover have "process_reachable uc pf config p"
      by (rule process_reachable_steps [OF p(2) process_reachable.start])
    ultimately show ?thesis
      using p(3) e by (auto simp: has_ended_as_def is_end_def split: server_end.splits)
  qed
qed

text \<open>
  C17: The process never gets stuck: from every state it can reach, whatever the threads have done so far,
  it can go on to an end \<open>run_server\<close> lists. When that is to serve, it reaches a state in which exactly
  the workers whose runtime and listener could be made accept connections, all of them.
\<close>

theorem server_reaches_its_end:
  assumes "process_reachable uc pf config p"
  shows "\<exists>e p'. e \<in> set (run_server pf config) \<and> (process_step uc pf config)\<^sup>*\<^sup>* p p' \<and> has_ended_as e p'"
  by (rule process_reaches_end [OF assms])

definition one_worker :: platform where
  "one_worker = \<lparr>is_windows = True, has_reuse_port = False, panic_aborts = True, parallelism = None,
     spawn_fails = (\<lambda>w. False), runtime_fails = (\<lambda>w. False), setup_fails = (\<lambda>w c. False)\<rparr>"

lemma one_worker_serves: "worker_serves one_worker config 0"
  by (simp add: worker_serves_def one_worker_def open_listener_def)

lemma workers_one: "workers one_worker = 1"
  by (simp add: workers_def num_workers_def one_worker_def)

lemma run_one_worker: "run_server one_worker config = [Serving [0]]"
  using one_worker_serves [of config]
  by (simp add: run_server_def aborts_def Let_def) (simp add: one_worker_def num_workers_def upt_rec)

definition serving :: "worker \<Rightarrow> process" where
  "serving w = \<lparr>main_thread = Joining 0, threads = [Working w]\<rparr>"

lemma serving_start_reachable: "process_reachable uc one_worker config (serving worker_start)"
proof -
  let ?p1 = "\<lparr>main_thread = Spawning 1, threads = [Starting]\<rparr>"
  let ?p2 = "\<lparr>main_thread = Joining 0, threads = [Starting]\<rparr>"
  have "process_step uc one_worker config process_start ?p1"
    using process_step.spawned [of process_start 0 one_worker uc config]
    by (simp add: process_start_def workers_one) (simp add: one_worker_def)
  moreover have "process_step uc one_worker config ?p1 ?p2"
    using process_step.all_spawned [of ?p1 one_worker uc config] by (simp add: workers_one)
  moreover have "process_step uc one_worker config ?p2 (serving worker_start)"
    using process_step.listens [of ?p2 0 one_worker config uc]
    by (simp add: one_worker_serves alive_def serving_def)
  ultimately show ?thesis
    by (blast intro: process_reachable.start process_reachable.step)
qed

lemma serving_steps:
  "(worker_step uc config)\<^sup>*\<^sup>* w w' \<Longrightarrow> (process_step uc one_worker config)\<^sup>*\<^sup>* (serving w) (serving w')"
  using working_steps [of uc config w w' "serving w" 0 one_worker] by (simp add: serving_def alive_def)

lemma serving_reachable: "reachable uc config w \<Longrightarrow> process_reachable uc one_worker config (serving w)"
proof (induction rule: reachable.induct)
  case start
  show ?case by (rule serving_start_reachable)
next
  case (step w w')
  then show ?case
    using serving_steps [of uc config w w'] by (blast intro: process_reachable_steps)
qed

theorem server_reaches_its_end_witness:
  "\<exists>e p'. e \<in> set (run_server one_worker example_config) \<and>
     (process_step (\<lambda>s. s) one_worker example_config)\<^sup>*\<^sup>* (serving worker_start) p' \<and> has_ended_as e p'"
  by (rule server_reaches_its_end [OF serving_start_reachable])



end
