(* ===== verification/Tunnel_Live.thy ===== *)
theory Tunnel_Live
  imports Proxy
begin

text \<open>
  What the proxy achieves when nothing goes wrong. The other theories say what a connection never
  does, whatever fails; here the calls succeed (vectored writes may still be partial, a byte at a
  time), and the handlers of \<^verbatim>\<open>src/proxy.rs\<close> are shown to reach their end: the tunnel. Socket options may be
  refused all the same, since the program does not look at their results.
\<close>

section \<open>Operations that complete\<close>

text \<open>Every call succeeds; a vectored write accepts at least one byte.\<close>

definition obliging :: "env \<Rightarrow> bool" where
  "obliging env \<longleftrightarrow>
     (\<forall>h s data. on_write_all env h s data = None) \<and> (\<forall>h s. on_flush env h s = None) \<and>
     (\<forall>h s bufs. \<exists>k. on_write_vectored env h s bufs = Inr (Suc k)) \<and>
     (\<forall>h s v6. on_open env h s v6 = None) \<and> (\<forall>h s a. on_connect env h s a = None) \<and>
     (\<forall>h. on_tunnel env h = None)"

text \<open>\<open>completes m\<close>: \<open>m\<close> returns a value, it neither fails nor panics.\<close>

definition completes :: "'a io \<Rightarrow> bool" where
  "completes m \<longleftrightarrow> does (\<lambda>es r. \<exists>x. r = Ok x) m"

named_theorems completes_intros "introduction rules for completes"

lemma completes_bind [completes_intros]:
  "completes m \<Longrightarrow> (\<And>x. completes (f x)) \<Longrightarrow> completes (bindI m f)"
  unfolding completes_def by (rule does_bind, assumption) auto

lemma completes_ok [completes_intros]: "completes (okI x)"
  unfolding completes_def by (rule does_ok) simp

lemma completes_liftR [completes_intros]: "safe r \<Longrightarrow> completes (liftR r)"
  unfolding completes_def by (rule does_liftR) simp_all

lemma completes_if [completes_intros]:
  "(b \<Longrightarrow> completes m) \<Longrightarrow> (\<not> b \<Longrightarrow> completes n) \<Longrightarrow> completes (if b then m else n)"
  by simp

lemma completes_option [completes_intros]:
  "(x = None \<Longrightarrow> completes m) \<Longrightarrow> (\<And>y. x = Some y \<Longrightarrow> completes (f y)) \<Longrightarrow>
   completes (case x of None \<Rightarrow> m | Some y \<Rightarrow> f y)"
  by (cases x) auto

lemma completes_random [completes_intros]: "lo \<le> hi \<Longrightarrow> completes (random_range env lo hi)"
  unfolding completes_def by (rule does_mono [OF does_random]) auto

lemma completes_sleep [completes_intros]: "completes (sleep_ms n)"
  unfolding completes_def by (rule doesI) (simp add: sleep_ms_def)

lemma completes_random_delay [completes_intros]: "lo \<le> hi \<Longrightarrow> completes (random_delay env lo hi)"
  unfolding random_delay_def by (intro completes_intros)

lemma completes_set_option [completes_intros]: "completes (set_option env s opt)"
  unfolding completes_def by (rule doesI) (simp add: set_option_def)

lemma completes_probe [completes_intros]: "completes (inject_fake_ttl_probe env addr sni ttl)"
  unfolding completes_def by (rule does_mono [OF inject_probe_does]) simp

lemma completes_cut: "4 < len \<Longrightarrow> completes (calculate_sni_cut_offset env len host)"
  unfolding completes_def by (rule does_mono [OF does_cut]) auto


section \<open>The calls of an obliging environment\<close>

lemma completes_answered: "(\<And>h. a h = None) \<Longrightarrow> completes (\<lambda>h. answered (a h) good bad h)"
  unfolding completes_def by (rule doesI) (simp add: answered_def)

lemma obliging_calls:
  assumes "obliging env"
  shows "completes (tcp_write_all env s data)" and "completes (tcp_flush env s)"
    and "completes (tcp_open env s v6)" and "completes (tcp_connect env s a)"
proof -
  show "completes (tcp_write_all env s data)"
    unfolding completes_def by (rule doesI) (use assms in \<open>simp add: tcp_write_all_def obliging_def\<close>)
  show "completes (tcp_flush env s)" "completes (tcp_open env s v6)" "completes (tcp_connect env s a)"
    unfolding tcp_flush_def [abs_def] tcp_open_def [abs_def] tcp_connect_def [abs_def]
    by (rule completes_answered; use assms in \<open>simp add: obliging_def\<close>)+
qed

lemma obliging_write_vectored:
  assumes "obliging env" and "concat bufs \<noteq> []"
  shows "does (\<lambda>es r. \<exists>n. r = Ok n \<and> 0 < n \<and> n \<le> length (concat bufs)) (tcp_write_vectored env s bufs)"
proof (rule doesI)
  fix h
  obtain k where "on_write_vectored env h s bufs = Inr (Suc k)"
    using assms(1) unfolding obliging_def by blast
  with assms(2) show "\<exists>es r. tcp_write_vectored env s bufs h = (r, h @ es) \<and>
      (\<exists>n. r = Ok n \<and> 0 < n \<and> n \<le> length (concat bufs))"
    by (auto simp: tcp_write_vectored_def Let_def length_greater_0_conv simp del: concat_eq_Nil_conv)
qed

lemma completes_write_vectored_loop:
  assumes "obliging env"
  shows "completes (write_vectored_loop env s slices off)"
proof (induction "length (pending slices off)" arbitrary: slices off rule: less_induct)
  case less
  show ?case
  proof (cases "fst (skip_written slices off)")
    case Nil
    then show ?thesis by (simp add: write_vectored_loop_done completes_ok)
  next
    case (Cons s0 r)
    then obtain off' where sk: "skip_written slices off = (s0 # r, off')"
      by (cases "skip_written slices off") auto
    let ?p = "pending slices off" and ?b = "drop off' s0 # take 3 r"
    note o = skip_written_head [OF sk]
    have p: "?p = pending (s0 # r) off'"
      using pending_skip [of slices off] sk by simp
    have ne: "concat ?b \<noteq> []" using o by simp
    have le: "length (concat ?b) \<le> length (pending (s0 # r) off')"
      using concat_take_prefix [of r 3] by simp
    have "completes (if n = 0 then errI Write_Zero
        else bindI (liftR (advance (s0 # r) off' n)) (\<lambda>(slices, off). write_vectored_loop env s slices off))"
      if n: "0 < n" "n \<le> length (concat ?b)" for n
    proof -
      have "off_ok (s0 # r) off'" using o by (simp add: off_ok_def)
      from advance_pending [OF this order_trans [OF n(2) le]] obtain sl2 o2 where
        a: "advance (s0 # r) off' n = Val (sl2, o2)" "pending sl2 o2 = drop n ?p"
        unfolding p by blast
      have "length (pending sl2 o2) < length ?p"
        using n order_trans [OF n(2) le] unfolding a(2) p by simp
      from less [OF this] n(1) show ?thesis unfolding a(1) by simp
    qed
    then show ?thesis
      unfolding write_vectored_loop_step [OF sk] completes_def
      by (intro does_bind [OF obliging_write_vectored [OF assms ne],
            where Q = "\<lambda>_ es r. \<exists>x. r = Ok x"]) (auto simp: completes_def)
  qed
qed

lemma completes_write_all_vectored: "obliging env \<Longrightarrow> completes (write_all_vectored env s slices)"
  unfolding write_all_vectored_def by (rule completes_write_vectored_loop)

lemma completes_split_loop:
  assumes "obliging env"
  shows "completes (split_loop env s data offset)"
proof (induction "length data - offset" arbitrary: offset rule: less_induct)
  case less
  show ?case
  proof (cases "offset < length data")
    case True
    have "completes (bindI (tcp_write_all env s (take n (drop offset data))) (\<lambda>_.
        split_loop env s data (offset + min n (length data - offset))))" if "80 \<le> n" for n
      using that True by (intro completes_intros obliging_calls [OF assms] less) auto
    then show ?thesis
      unfolding split_loop_step [OF True] completes_def
      by (intro does_bind [OF does_random, where Q = "\<lambda>_ es r. \<exists>x. r = Ok x"]) auto
  next
    case False
    then have "split_loop env s data offset = okI ()"
      by (intro ext) (subst split_loop.simps, simp)
    then show ?thesis by (simp add: completes_ok)
  qed
qed

lemma completes_split_and_write: "obliging env \<Longrightarrow> completes (split_and_write env data s)"
  unfolding split_and_write_def by (intro completes_intros completes_split_loop obliging_calls)

lemma completes_transmit:
  "obliging env \<Longrightarrow> completes (transmit_tls_records env s rec1 rec2 trailing meta)"
  unfolding transmit_tls_records_def
  by (intro completes_intros completes_write_all_vectored obliging_calls) simp_all

lemma sent_connect_events [simp]: "sent s (connect_events addr config) = []"
  by (simp add: connect_events_def)

lemma connect_succeeds:
  assumes "obliging env"
  shows "\<exists>es. connect_remote_socket env addr config h = (Ok (), h @ es) \<and>
    Connected Remote addr \<in> set es \<and> (\<forall>s. sent s es = [])"
proof -
  have "completes (connect_remote_socket env addr config)"
    unfolding connect_remote_socket_def Let_def
    by (intro completes_intros obliging_calls [OF assms])
  from does_conj [OF this [unfolded completes_def] connect_does, THEN doesD, of h]
  obtain es where es: "connect_remote_socket env addr config h = (Ok (), h @ es)"
    "map tried es = connect_events addr config"
    by (auto simp: connects_def)
  from tried_same_connections [OF es(2)] have "Connected Remote addr \<in> set es \<and> (\<forall>s. sent s es = [])"
    by (simp add: connect_events_def [of addr config])
  with es(1) show ?thesis by blast
qed


section \<open>Reaching the tunnel\<close>

text \<open>\<open>tunnels m\<close>: \<open>m\<close> succeeds, and the last thing it does is to copy between client and server.\<close>

definition tunnels :: "unit io \<Rightarrow> bool" where
  "tunnels m \<longleftrightarrow> does (\<lambda>es r. r = Ok () \<and> (\<exists>es'. es = es' @ [Tunnelled Client Remote])) m"

lemma tunnels_bind:
  assumes "completes m" and "\<And>x. tunnels (f x)"
  shows "tunnels (bindI m f)"
  unfolding tunnels_def
  by (rule does_bind [OF assms(1) [unfolded completes_def] assms(2) [unfolded tunnels_def]]) auto

lemma tunnels_if: "(b \<Longrightarrow> tunnels m) \<Longrightarrow> (\<not> b \<Longrightarrow> tunnels n) \<Longrightarrow> tunnels (if b then m else n)"
  by simp

lemma tunnels_option:
  "(x = None \<Longrightarrow> tunnels m) \<Longrightarrow> (\<And>y. x = Some y \<Longrightarrow> tunnels (f y)) \<Longrightarrow>
   tunnels (case x of None \<Rightarrow> m | Some y \<Rightarrow> f y)"
  by (cases x) auto

lemma tunnels_prod: "(\<And>a b. tunnels (f a b)) \<Longrightarrow> tunnels (case x of (a, b) \<Rightarrow> f a b)"
  by (cases x) simp

lemma tunnels_bidirectional: "obliging env \<Longrightarrow> tunnels (tunnel_bidirectional env)"
  unfolding tunnels_def tunnel_bidirectional_def
  by (rule doesI) (simp add: copy_bidirectional_def obliging_def)

lemma tunnels_relay:
  assumes "obliging env"
  shows "tunnels (relay_client_hello env config host addr meta raw)"
  unfolding relay_client_hello_def Let_def
  by (intro tunnels_bind tunnels_prod tunnels_option tunnels_if completes_cut tunnels_bidirectional
      completes_split_and_write completes_transmit completes_intros safe_parsers assms)


text \<open>
  The client sends its request, and the first bytes of the connection once it has been told, by the first
  flush, that the tunnel is established.
\<close>

definition client_sends :: "env \<Rightarrow> bytes \<Rightarrow> bytes \<Rightarrow> bool" where
  "client_sends env request first_bytes \<longleftrightarrow>
     (\<forall>h. on_read env h Client = Inr (if Flushed Client \<in> set h then first_bytes else request))"

text \<open>The name of the target is found, however it is found.\<close>

definition target_resolves :: "env \<Rightarrow> dns_resolver \<Rightarrow> rstr \<Rightarrow> u16 \<Rightarrow> ip_addr \<Rightarrow> bool" where
  "target_resolves env resolver host port ip \<longleftrightarrow>
     (\<forall>h. fst (find_remote_ip env resolver host port h) = Ok (Some ip))"

text \<open>The name under which the target is looked up, and whether it may be connected to by name.\<close>

definition looked_up_host :: "proxy_config \<Rightarrow> rstr \<Rightarrow> rstr" where
  "looked_up_host config raw_host = (if trailing_dot config then ensure_trailing_dot raw_host else raw_host)"

definition host_allowed :: "rstr \<Rightarrow> bool" where
  "host_allowed raw_host \<longleftrightarrow>
     (let clean = trim_end_matches 46 raw_host in
      \<not> eq_ignore_ascii_case clean (lit ''localhost'') \<and>
      (case parse_ip clean of None \<Rightarrow> True | Some ip \<Rightarrow> \<not> is_local_ip ip))"

lemma established_completes:
  assumes "obliging env" and "client_sends env request first_bytes" and "first_bytes \<noteq> []"
  shows "\<exists>es. bindI (tcp_write_all env Client HTTP_200_ESTABLISHED) (\<lambda>_.
      bindI (tcp_flush env Client) (\<lambda>_.
      bindI (tcp_read env Client CLIENT_HELLO_BUF_SIZE) (\<lambda>raw_bytes.
      if raw_bytes \<noteq> [] then relay_client_hello env config host addr meta raw_bytes
      else tunnel_bidirectional env))) h = (Ok (), h @ es @ [Tunnelled Client Remote]) \<and>
    sent Client es = HTTP_200_ESTABLISHED \<and> sent Remote es \<in> outbound (take CLIENT_HELLO_BUF_SIZE first_bytes)"
proof -
  let ?raw = "take CLIENT_HELLO_BUF_SIZE first_bytes"
  let ?m = "relay_client_hello env config host addr meta ?raw"
  let ?h = "h @ [Wrote Client HTTP_200_ESTABLISHED, Flushed Client, Received Client ?raw]"
  have "?raw \<noteq> []" using assms(3) by (simp add: CLIENT_HELLO_BUF_SIZE_def)
  from does_conj [OF tunnels_relay [OF assms(1), of config host addr meta ?raw, unfolded tunnels_def]
      does_conj [OF relay_outbound [of ?raw env config host addr meta, unfolded answers_def]
        silent_relay [of env config host addr meta ?raw, unfolded emits_def]], THEN doesD, of ?h]
  obtain es where es: "?m ?h = (Ok (), ?h @ es @ [Tunnelled Client Remote])"
    "sent Remote es \<in> outbound ?raw" "list_all (silent_on Client) es"
    by auto
  moreover have "on_write_all env h Client HTTP_200_ESTABLISHED = None"
    "on_flush env (h @ [Wrote Client HTTP_200_ESTABLISHED]) Client = None"
    "on_read env (h @ [Wrote Client HTTP_200_ESTABLISHED, Flushed Client]) Client = Inr first_bytes"
    using assms(1,2) by (simp_all add: obliging_def client_sends_def)
  ultimately show ?thesis
    using \<open>?raw \<noteq> []\<close>
    by (intro exI [of _ "[Wrote Client HTTP_200_ESTABLISHED, Flushed Client, Received Client ?raw] @ es"])
      (simp add: bindI_def tcp_write_all_def tcp_flush_def answered_def tcp_read_def silent_on_sent)
qed

lemma connect_tunnel_completes:
  assumes "obliging env" and "client_sends env request first_bytes" and "first_bytes \<noteq> []"
    and t: "parse_connect_target req = Some (raw_host, port)" and "host_allowed raw_host"
    and ip: "target_resolves env resolver (looked_up_host config raw_host) port ip" and "\<not> is_local_ip ip"
  shows "\<exists>es. handle_connect_tunnel uc env resolver config req h = (Ok (), h @ es @ [Tunnelled Client Remote]) \<and>
    Connected Remote \<lparr>sa_ip = ip, sa_port = port\<rparr> \<in> set es \<and>
    sent Client es = HTTP_200_ESTABLISHED \<and> sent Remote es \<in> outbound (take CLIENT_HELLO_BUF_SIZE first_bytes)"
proof -
  let ?host = "looked_up_host config raw_host" and ?addr = "\<lparr>sa_ip = ip, sa_port = port\<rparr>"
  obtain es where f: "find_remote_ip env resolver ?host port h = (Ok (Some ip), h @ es)"
    using target.answers_always [of env resolver ?host port h] ip
    by (auto simp: target_resolves_def) (metis fst_conv res.inject(1))
  have s: "sent Client es = []" "sent Remote es = []"
    using target.writes_nothing [of _ env resolver ?host port h] by (simp_all add: f)
  obtain ce where ce: "connect_remote_socket env ?addr config (h @ es) = (Ok (), (h @ es) @ ce)"
    "Connected Remote ?addr \<in> set ce" "\<And>s. sent s ce = []"
    using connect_succeeds [OF assms(1), of ?addr config "h @ es"] by blast
  obtain es2 where e: "bindI (tcp_write_all env Client HTTP_200_ESTABLISHED) (\<lambda>_.
      bindI (tcp_flush env Client) (\<lambda>_.
      bindI (tcp_read env Client CLIENT_HELLO_BUF_SIZE) (\<lambda>raw_bytes.
      if raw_bytes \<noteq> [] then relay_client_hello env config ?host ?addr (is_padding_incompatible_domain uc ?host) raw_bytes
      else tunnel_bidirectional env))) ((h @ es) @ ce) = (Ok (), ((h @ es) @ ce) @ es2 @ [Tunnelled Client Remote])"
    "sent Client es2 = HTTP_200_ESTABLISHED" "sent Remote es2 \<in> outbound (take CLIENT_HELLO_BUF_SIZE first_bytes)"
    using established_completes [OF assms(1-3)] by blast
  have "handle_connect_tunnel uc env resolver config req h =
      (Ok (), h @ (es @ ce @ es2) @ [Tunnelled Client Remote])"
    using assms(5,7) e(1) f(1) ce(1)
    unfolding handle_connect_tunnel_def t option.case prod.case Let_def looked_up_host_def [symmetric]
    by (simp add: host_allowed_def Let_def bindI_def attempt_def split: option.splits)
  moreover have "Connected Remote ?addr \<in> set (es @ ce @ es2)"
    using ce(2) by simp
  ultimately show ?thesis
    using s ce(3) e(2,3) by (intro exI [of _ "es @ ce @ es2"]) simp
qed



text \<open>
  A session in which everything goes well: the calls succeed, the request is a CONNECT for an allowed host,
  and the host has an address, which is not local.
\<close>

definition session_ok ::
  "env \<Rightarrow> dns_resolver \<Rightarrow> proxy_config \<Rightarrow> bytes \<Rightarrow> bytes \<Rightarrow> socket_addr \<Rightarrow> bool" where
  "session_ok env resolver config request first_bytes addr \<longleftrightarrow>
     obliging env \<and> client_sends env request first_bytes \<and>
     request \<noteq> [] \<and> length request \<le> CLIENT_BUF_SIZE \<and> first_bytes \<noteq> [] \<and> \<not> is_local_ip (sa_ip addr) \<and>
     (let cleaned = preprocess_http_request (decode_request request) (http_space config) (mix_header_case config) in
      is_http_connect cleaned \<and>
      (case parse_connect_target cleaned of None \<Rightarrow> False
       | Some (host, port) \<Rightarrow> host_allowed host \<and> sa_port addr = port \<and>
           target_resolves env resolver (looked_up_host config host) port (sa_ip addr)))"

lemma session_reaches_tunnel:
  assumes "session_ok env resolver config request first_bytes addr"
  shows "\<exists>es. handle_client uc env resolver config [] = (Ok (), es @ [Tunnelled Client Remote]) \<and>
    Connected Remote addr \<in> set es \<and> sent Client es = HTTP_200_ESTABLISHED \<and>
    sent Remote es \<in> outbound (take CLIENT_HELLO_BUF_SIZE first_bytes)"
proof -
  define cleaned where
    "cleaned = preprocess_http_request (decode_request request) (http_space config) (mix_header_case config)"
  obtain host where c: "obliging env" "client_sends env request first_bytes" "request \<noteq> []"
    "length request \<le> CLIENT_BUF_SIZE" "first_bytes \<noteq> []" "\<not> is_local_ip (sa_ip addr)" "is_http_connect cleaned"
    "parse_connect_target cleaned = Some (host, sa_port addr)" "host_allowed host"
    "target_resolves env resolver (looked_up_host config host) (sa_port addr) (sa_ip addr)"
    using assms by (auto simp: session_ok_def cleaned_def [symmetric] Let_def split: option.splits)
  obtain e where e: "set_option env Client Nodelay [] = (Ok (), [e])" "e \<noteq> Flushed Client" "\<And>s. written s e = []"
    by (cases "on_option env [] Client Nodelay") (auto simp: set_option_def)
  let ?h = "[e, Received Client request]"
  obtain es where es: "handle_connect_tunnel uc env resolver config cleaned ?h =
      (Ok (), ?h @ es @ [Tunnelled Client Remote])"
    "Connected Remote \<lparr>sa_ip = sa_ip addr, sa_port = sa_port addr\<rparr> \<in> set es"
    "sent Client es = HTTP_200_ESTABLISHED" "sent Remote es \<in> outbound (take CLIENT_HELLO_BUF_SIZE first_bytes)"
    using connect_tunnel_completes [OF c(1,2,5,8,9,10,6), of uc ?h] by blast
  have "on_read env [e] Client = Inr request"
    using c(2) e(2) by (simp add: client_sends_def)
  then have "handle_client uc env resolver config [] = handle_connect_tunnel uc env resolver config cleaned ?h"
    using c(3,4,7) e(1) by (simp add: handle_client_def dispatch_request_def bindI_def tcp_read_def
        cleaned_def [symmetric])
  moreover have "Connected Remote addr \<in> set es"
    using es(2) by (cases addr) simp
  ultimately show ?thesis
    using es(1,3,4) e(3) by (intro exI [of _ "?h @ es"]) simp
qed


section \<open>Properties\<close>

text \<open>
  C5: A tunnel is established when the network works. The client sends a CONNECT request for an allowed
  host that resolves to an address that is not local, and then its first bytes; the calls succeed,
  with vectored writes of any size above zero. Then the handler returns success, the target has been
  connected to, the client has received exactly the 200 answer, the server one of the streams the
  relay makes of the first bytes, completely, and the last thing done is to copy both ways.
\<close>

theorem connect_establishes_tunnel:
  assumes "session_ok env resolver config request first_bytes addr"
  shows "\<exists>es. handle_client uc env resolver config [] = (Ok (), es @ [Tunnelled Client Remote]) \<and>
    Connected Remote addr \<in> set es \<and> sent Client es = HTTP_200_ESTABLISHED \<and>
    sent Remote es \<in> outbound (take CLIENT_HELLO_BUF_SIZE first_bytes)"
  by (rule session_reaches_tunnel [OF assms])

definition example_request :: bytes where
  "example_request = utf8 (connect_request (lit ''93.184.216.34:443'') @ crlf)"

definition example_session :: env where
  "example_session = calm_env
     \<lparr>on_read := (\<lambda>h s. Inr (if Flushed Client \<in> set h then example_ch @ [0x14, 3, 3] else example_request)),
      on_write_vectored := (\<lambda>h s bs. Inr 1)\<rparr>"

lemma example_session_ok:
  "session_ok example_session (new_resolver []) example_config example_request (example_ch @ [0x14, 3, 3])
     \<lparr>sa_ip = V4 93 184 216 34, sa_port = 443\<rparr>"
proof -
  let ?cleaned = "preprocess_http_request (decode_request example_request)
      (http_space example_config) (mix_header_case example_config)"
  let ?host = "lit ''93.184.216.34''"
  have "obliging example_session"
    by (simp add: obliging_def example_session_def calm_env_def)
  moreover have "client_sends example_session example_request (example_ch @ [0x14, 3, 3])"
    by (simp add: client_sends_def example_session_def)
  moreover have "example_request \<noteq> []" "length example_request \<le> CLIENT_BUF_SIZE" by code_simp+
  moreover have "is_http_connect ?cleaned" "parse_connect_target ?cleaned = Some (?host, 443)"
    "host_allowed ?host" "\<not> is_local_ip (V4 93 184 216 34)" by code_simp+
  moreover have "parse_ip (trim_end_matches 46 (looked_up_host example_config ?host)) = Some (V4 93 184 216 34)"
    by code_simp
  then have "target_resolves example_session (new_resolver []) (looked_up_host example_config ?host) 443 (V4 93 184 216 34)"
    by (simp add: target_resolves_def find_remote_ip_def resolve_def okI_def bindI_def)
  ultimately show ?thesis
    by (simp add: session_ok_def Let_def)
qed

theorem connect_establishes_tunnel_witness:
  "\<exists>es. handle_client (\<lambda>s. s) example_session (new_resolver []) example_config [] =
      (Ok (), es @ [Tunnelled Client Remote]) \<and>
    Connected Remote \<lparr>sa_ip = V4 93 184 216 34, sa_port = 443\<rparr> \<in> set es \<and>
    sent Client es = HTTP_200_ESTABLISHED \<and>
    sent Remote es \<in> outbound (take CLIENT_HELLO_BUF_SIZE (example_ch @ [0x14, 3, 3]))"
  by (rule connect_establishes_tunnel [OF example_session_ok])

text \<open>An IPv4 address as an IPv6 one, \<open>::ffff:a.b.c.d\<close>.\<close>

definition mapped_v4 :: "byte \<Rightarrow> byte \<Rightarrow> byte \<Rightarrow> byte \<Rightarrow> ip_addr" where
  "mapped_v4 a b c d = V6 [0, 0, 0, 0, 0, 0xFFFF, from_be_bytes a b, from_be_bytes c d]"

text \<open>
  C40: The check against local addresses does not see through IPv4-mapped IPv6 addresses: when the name of a
  CONNECT request for an allowed host resolves to a mapped address of \<open>127.0.0.0/8\<close>, whichever, the proxy
  connects to it and answers 200, although the same address as an IPv4 address is refused.
\<close>

theorem mapped_loopback_is_connected:
  assumes "obliging env" and "client_sends env request first_bytes" and "first_bytes \<noteq> []"
    and "parse_connect_target req = Some (raw_host, port)" and "host_allowed raw_host"
    and "target_resolves env resolver (looked_up_host config raw_host) port (mapped_v4 127 b c d)"
  shows "\<exists>es. handle_connect_tunnel uc env resolver config req h = (Ok (), h @ es) \<and>
    Connected Remote \<lparr>sa_ip = mapped_v4 127 b c d, sa_port = port\<rparr> \<in> set es \<and>
    sent Client es = HTTP_200_ESTABLISHED \<and> is_local_ip (V4 127 b c d)"
proof -
  have "\<not> is_local_ip (mapped_v4 127 b c d)"
    by (simp add: mapped_v4_def is_local_ip_def is_loopback_def is_unspecified_def)
  from connect_tunnel_completes [OF assms this, of uc h] show ?thesis
    by (auto simp: is_local_ip_def is_loopback_def)
qed

definition mapped_session :: env where
  "mapped_session = example_session
     \<lparr>on_udp_bind := \<lambda>h. Some (Os_Error 1),
      on_lookup := \<lambda>h n. Inr [\<lparr>sa_ip = mapped_v4 127 0 0 1, sa_port = 443\<rparr>]\<rparr>"

theorem mapped_loopback_is_connected_witness:
  "\<exists>es. handle_connect_tunnel (\<lambda>s. s) mapped_session (new_resolver []) example_config
      (connect_request (lit ''example.org:443'')) [] = (Ok (), [] @ es) \<and>
    Connected Remote \<lparr>sa_ip = mapped_v4 127 0 0 1, sa_port = 443\<rparr> \<in> set es \<and>
    sent Client es = HTTP_200_ESTABLISHED \<and> is_local_ip (V4 127 0 0 1)"
proof (rule mapped_loopback_is_connected)
  show "obliging mapped_session"
    by (simp add: obliging_def mapped_session_def example_session_def calm_env_def)
  show "client_sends mapped_session example_request (example_ch @ [0x14, 3, 3])"
    by (simp add: client_sends_def mapped_session_def example_session_def)
  show "parse_connect_target (connect_request (lit ''example.org:443'')) = Some (lit ''example.org'', 443)"
    by code_simp
  show "host_allowed (lit ''example.org'')" by code_simp
  let ?name = "looked_up_host example_config (lit ''example.org'')"
  have "parse_ip (trim_end_matches 46 ?name) = None" "length (utf8 (trim_end_matches 46 ?name)) \<le> 100"
    by code_simp+
  from resolve_unfold [OF this, of mapped_session "new_resolver []"] obtain msg where
    "resolve mapped_session (new_resolver []) ?name =
      bindI (query_udp mapped_session (new_resolver []) msg) (\<lambda>answer. case answer of
         Some ip \<Rightarrow> okI (Some ip)
       | None \<Rightarrow>
           bindI (attempt (lookup_host mapped_session (trim_end_matches 46 ?name @ lit '':443''))) (\<lambda>found. case found of
              Inl _ \<Rightarrow> okI None
            | Inr addrs \<Rightarrow> (case addrs of [] \<Rightarrow> okI None | addr # _ \<Rightarrow> okI (Some (sa_ip addr)))))" ..
  then show "target_resolves mapped_session (new_resolver []) ?name 443 (mapped_v4 127 0 0 1)"
    by (simp add: target_resolves_def find_remote_ip_def query_udp_def bindI_def attempt_def udp_bind_def
        lookup_host_def okI_def mapped_session_def split: option.splits)
qed simp

end
