(* ===== verification/Answers.thy ===== *)
theory Answers
  imports Tunnel_Live
begin

text \<open>
  What the proxy of \<^verbatim>\<open>src/proxy.rs\<close> tells its client. The answer of a connection is a function of what
  happened on it: of the request that was read, of the address that was found for its host, and of whether
  the outbound connection was made. \<open>due\<close> is this function, a table of the answers; the handlers are shown to
  send exactly this answer, whatever the environment does.
\<close>

section \<open>The answer that is due\<close>

text \<open>The first bytes of the client.\<close>

fun first_received :: "history \<Rightarrow> bytes option" where
  "first_received [] = None"
| "first_received (Received Client bs # es) = Some bs"
| "first_received (e # es) = first_received es"

text \<open>
  The address of a host: the literal itself, or the first one in a received datagram, or else the first one
  the system resolver gave.
\<close>

definition found_address :: "rstr \<Rightarrow> history \<Rightarrow> ip_addr option" where
  "found_address host es =
     (case parse_ip (trim_end_matches 46 host) of
        Some ip \<Rightarrow> Some ip
      | None \<Rightarrow> (case first_answer usable es of Some ip \<Rightarrow> Some ip | None \<Rightarrow> first_answer system_answer es))"

definition address_answer :: "u16 \<Rightarrow> ip_addr option \<Rightarrow> history \<Rightarrow> bytes" where
  "address_answer port found es =
     (case found of
        None \<Rightarrow> HTTP_502_BAD_GATEWAY
      | Some ip \<Rightarrow>
          if is_local_ip ip then HTTP_403_FORBIDDEN
          else if Connected Remote \<lparr>sa_ip = ip, sa_port = port\<rparr> \<in> set es then HTTP_200_ESTABLISHED
          else HTTP_502_BAD_GATEWAY)"

definition connect_answer :: "proxy_config \<Rightarrow> (rstr \<times> u16) option \<Rightarrow> history \<Rightarrow> bytes" where
  "connect_answer config target es =
     (case target of
        None \<Rightarrow> HTTP_400_BAD_REQUEST
      | Some (host, port) \<Rightarrow>
          if host_allowed host then address_answer port (found_address (looked_up_host config host) es) es
          else HTTP_403_FORBIDDEN)"

definition redirect_response :: "rstr \<Rightarrow> bytes" where
  "redirect_response host = HTTP_301_PREFIX @ utf8 host @ HTTP_301_SUFFIX"

definition request_answer :: "proxy_config \<Rightarrow> rstr \<Rightarrow> history \<Rightarrow> bytes" where
  "request_answer config request_str es =
     (let cleaned = preprocess_http_request request_str (http_space config) (mix_header_case config) in
      if is_http_connect cleaned then connect_answer config (parse_connect_target cleaned) es
      else if prefix (lit ''GET '') request_str \<or> prefix (lit ''POST '') request_str
      then redirect_response (redirect_host request_str)
      else BENIGN_NGINX_404_RESPONSE)"

definition due :: "proxy_config \<Rightarrow> history \<Rightarrow> bytes" where
  "due config es =
     (case first_received es of
        None \<Rightarrow> []
      | Some request_bytes \<Rightarrow>
          if request_bytes = [] then [] else request_answer config (decode_request request_bytes) es)"

text \<open>
  How an answer \<open>a\<close> is told: completely when the handler succeeds, as a prefix when it fails. The 404 page alone
  may be cut short by a failing write without an error of the handler, which drops the result of that write.
\<close>

definition told :: "bytes \<Rightarrow> history \<Rightarrow> unit res \<Rightarrow> bool" where
  "told a es r \<longleftrightarrow>
     (case r of
        Ok _ \<Rightarrow> sent Client es = a \<or>
          (a = BENIGN_NGINX_404_RESPONSE \<and> Failed Client \<in> set es \<and> prefix (sent Client es) a)
      | Err _ \<Rightarrow> prefix (sent Client es) a
      | Panicked \<Rightarrow> False)"


section \<open>Events that do not bear on the answer\<close>

definition neutral :: "event \<Rightarrow> bool" where
  "neutral e \<longleftrightarrow> usable e = None \<and> system_answer e = None \<and> \<not> (\<exists>a. e = Connected Remote a)"

lemma neutral_simps [simp]:
  "neutral (Wrote s bs)" "neutral (Failed s)" "neutral (Flushed s)" "neutral (Received s bs)" "neutral (Opened s v6)"
  "neutral (Option_Set s opt)" "neutral (Option_Failed s opt)" "neutral (Drew lo hi v)" "neutral (Slept t)"
  "neutral (Tunnelled s1 s2)" "s \<noteq> Remote \<Longrightarrow> neutral (Connected s a)"
  by (simp_all add: neutral_def)

definition answerless :: "event \<Rightarrow> bool" where
  "answerless e \<longleftrightarrow> usable e = None \<and> system_answer e = None"

lemma neutral_answerless: "neutral e \<Longrightarrow> answerless e"
  by (simp add: neutral_def answerless_def)

lemma first_answerless:
  "list_all answerless es \<Longrightarrow> first_answer usable es = None \<and> first_answer system_answer es = None"
  by (induction es) (auto simp: answerless_def)

lemma found_address_after:
  "list_all answerless es' \<Longrightarrow> found_address host (es @ es') = found_address host es"
  by (simp add: found_address_def first_answer_append first_answerless split: option.splits)

lemma found_address_before:
  "list_all answerless es \<Longrightarrow> found_address host (es @ es') = found_address host es'"
  by (simp add: found_address_def first_answer_append first_answerless split: option.splits)

lemma neutral_before:
  assumes "list_all neutral es"
  shows "request_answer config req (es @ es') = request_answer config req es'"
proof -
  have "list_all answerless es"
    using assms by (auto simp: list_all_iff neutral_answerless)
  moreover have "Connected Remote a \<notin> set es" for a
    using assms by (auto simp: list_all_iff neutral_def)
  ultimately show ?thesis
    by (simp add: request_answer_def connect_answer_def address_answer_def found_address_before Let_def
        split: option.splits prod.splits)
qed


section \<open>The handlers send it\<close>

lemma told_before: "told a es r \<Longrightarrow> sent Client es0 = [] \<Longrightarrow> told a (es0 @ es) r"
  by (auto simp: told_def split: res.splits)

lemma told_delivers: "delivers Client a m \<Longrightarrow> does (told a) m"
  unfolding delivers_def by (erule does_mono) (auto simp: told_def split: res.splits)

lemma told_write: "does (\<lambda>es r. told p es r \<and> list_all neutral es) (tcp_write_all env Client p)"
  by (rule does_mono [OF does_write_all]) (auto simp: told_def take_is_prefix split: res.splits)

lemma find_remote_ip_decides:
  "does (\<lambda>es r. r = Ok (found_address host es) \<and> list_all resolver_event es) (find_remote_ip env resolver host port)"
proof -
  let ?clean = "trim_end_matches 46 host"
  have "does (\<lambda>es r. r = Ok (found_address host es)) (find_remote_ip env resolver host port)"
  proof (cases "parse_ip ?clean")
    case (Some ip)
    then show ?thesis
      by (simp add: find_remote_ip_literal does_ok found_address_def)
  next
    case None
    have res: "does (\<lambda>es r. r = Ok (found_address host es)) (resolve env resolver host)"
    proof (cases "length (utf8 ?clean) \<le> 100")
      case True
      show ?thesis
        by (rule does_mono [OF resolve_decided [OF None True]])
          (auto simp: decided_def found_address_def None split: option.splits)
    next
      case False
      then have "resolve env resolver host = okI None"
        using None by (intro ext) (simp add: resolve_def bindI_def liftR_def build_dns_query_def Let_def)
      then show ?thesis
        by (simp add: does_ok found_address_def None)
    qed
    have look: "does (\<lambda>es r. r = Ok (first_answer system_answer es) \<and> first_answer usable es = None)
      (bindI (attempt (lookup_host env (host @ lit '':'' @ show_int (uint port)))) (\<lambda>found. case found of
         Inr addrs \<Rightarrow> (case addrs of addr # _ \<Rightarrow> okI (Some (sa_ip addr)) | [] \<Rightarrow> okI None)
       | Inl _ \<Rightarrow> okI None))"
      by (rule doesI) (auto simp: bindI_def attempt_def lookup_host_def okI_def split: sum.splits list.splits)
    show ?thesis
      unfolding find_remote_ip_def
    proof (rule does_bind [OF res, where Q = "\<lambda>a es r. case a of Some ip \<Rightarrow> es = [] \<and> r = Ok (Some ip)
        | None \<Rightarrow> r = Ok (first_answer system_answer es) \<and> first_answer usable es = None"], goal_cases)
      case (1 es a)
      then have "found_address host es = a" by simp
      with look show ?case by (cases a) (simp_all add: does_ok)
    next
      case (4 es a es' r)
      then show ?case
        by (cases "found_address host es") (auto simp: found_address_def None first_answer_append split: option.splits)
    qed simp_all
  qed
  from does_conj [OF this target.find_quiet [of env resolver host port]] show ?thesis
    by (rule does_mono) auto
qed

lemma neutral_relay: "emits neutral (relay_client_hello env config host addr meta raw)"
  unfolding relay_client_hello_def inject_fake_ttl_probe_def tunnel_bidirectional_def
  by (intro emits_intros safe_parsers) simp_all

lemma established_told:
  "does (\<lambda>es r. told HTTP_200_ESTABLISHED es r \<and> list_all neutral es)
     (bindI (tcp_write_all env Client HTTP_200_ESTABLISHED) (\<lambda>_.
      bindI (tcp_flush env Client) (\<lambda>_.
      bindI (tcp_read env Client CLIENT_HELLO_BUF_SIZE) (\<lambda>raw_bytes.
      if raw_bytes \<noteq> [] then relay_client_hello env config host addr meta raw_bytes
      else tunnel_bidirectional env))))"
    (is "does _ ?m")
proof -
  have "answers Client {HTTP_200_ESTABLISHED} ?m"
    unfolding tunnel_bidirectional_def
    by (intro answers_then_silent answers_write emits_intros silent_relay) simp_all
  moreover have "emits neutral ?m"
    unfolding tunnel_bidirectional_def by (intro emits_intros neutral_relay) simp_all
  ultimately show ?thesis
    unfolding answers_def emits_def
    by (rule does_mono [OF does_conj]) (auto simp: told_def split: res.splits)
qed

text \<open>The outbound connection, and the answer that tells of it.\<close>

lemma connected_told:
  assumes "\<And>x. does (\<lambda>es r. told HTTP_200_ESTABLISHED es r \<and> list_all neutral es) (f x)"
    and "addr = \<lparr>sa_ip = ip, sa_port = port\<rparr>" and "\<not> is_local_ip ip"
  shows "does (\<lambda>es r. told (address_answer port (Some ip) es) es r \<and> list_all answerless es)
    (bindI (attempt (connect_remote_socket env addr config)) (\<lambda>connected. case connected of
       Inl _ \<Rightarrow> tcp_write_all env Client HTTP_502_BAD_GATEWAY | Inr x \<Rightarrow> f x))"
proof -
  have calm: "emits (\<lambda>e. silent_on Client e \<and> answerless e) (connect_remote_socket env addr config)"
    unfolding connect_remote_socket_def by (intro emits_intros) (simp_all add: answerless_def)
  show ?thesis
  proof (rule does_bind [where P = "\<lambda>es x. (case x of Ok c \<Rightarrow> isl c = (Connected Remote addr \<notin> set es) | _ \<Rightarrow> False) \<and>
        sent Client es = [] \<and> list_all answerless es"
        and Q = "\<lambda>x es r. told (if isl x then HTTP_502_BAD_GATEWAY else HTTP_200_ESTABLISHED) es r \<and> list_all neutral es"],
      goal_cases)
    case 1
    show ?case
    proof (rule does_attempt [OF does_conj [OF connect_does calm [unfolded emits_def]]], goal_cases)
      case (1 es x)
      have "Connected Remote addr \<in> set (connect_events addr config)"
        by (simp add: connect_events_def)
      with 1 show ?case
        using tried_same_connections(1) [of es "connect_events addr config" Remote addr]
        by (auto simp: connects_def list_all_iff intro!: silent_on_sent)
    next
      case (2 es e)
      then show ?case by (auto simp: connects_def list_all_iff intro!: silent_on_sent)
    qed (simp add: connects_def)
  next
    case (2 es x)
    show ?case using assms(1) told_write by (cases x) simp_all
  next
    case (5 es x es' r)
    have "Connected Remote addr \<notin> set es'"
      using 5(2) by (auto simp: list_all_iff neutral_def)
    with 5 assms(2,3) show ?case
      by (auto simp: address_answer_def told_def list_all_iff neutral_answerless split: res.splits)
  qed auto
qed

lemma resolver_silent_answer: "list_all resolver_event es \<Longrightarrow> sent Client es = [] \<and> Connected Remote a \<notin> set es"
  by (auto simp: list_all_iff resolver_event_def resolver_silent_on intro!: silent_on_sent)

lemma connect_tunnel_told:
  "does (\<lambda>es r. told (connect_answer config (parse_connect_target req) es) es r)
     (handle_connect_tunnel uc env resolver config req)"
proof (cases "parse_connect_target req")
  case None
  then show ?thesis
    unfolding handle_connect_tunnel_def
    by (auto simp: connect_answer_def intro: does_mono [OF told_write])
next
  case (Some t)
  then obtain raw_host port where t: "parse_connect_target req = Some (raw_host, port)"
    by (cases t) auto
  let ?host = "looked_up_host config raw_host"
  have loc: "(eq_ignore_ascii_case (trim_end_matches 46 raw_host) (lit ''localhost'') \<or>
      (case parse_ip (trim_end_matches 46 raw_host) of None \<Rightarrow> False | Some ip \<Rightarrow> is_local_ip ip)) =
      (\<not> host_allowed raw_host)"
    by (auto simp: host_allowed_def Let_def split: option.splits)
  show ?thesis
  proof (cases "host_allowed raw_host")
    case False
    then show ?thesis
      unfolding handle_connect_tunnel_def t option.case prod.case Let_def loc
      by (auto simp: connect_answer_def intro: does_mono [OF told_write])
  next
    case True
    let ?Q = "\<lambda>found es r. told (address_answer port found es) es r \<and> list_all answerless es"
    have w: "does (\<lambda>es r. told p es r \<and> list_all answerless es) (tcp_write_all env Client p)" for p
      by (rule does_mono [OF told_write]) (auto simp: list_all_iff neutral_answerless)
    show ?thesis
      unfolding handle_connect_tunnel_def t option.case prod.case Let_def loc looked_up_host_def [symmetric]
      apply (simp only: True not_True_eq_False if_False)
    proof (rule does_bind [OF find_remote_ip_decides, where Q = ?Q], goal_cases)
      case (1 es found)
      show ?case
      proof (cases found)
        case None
        then show ?thesis using w by (simp add: address_answer_def)
      next
        case (Some ip)
        show ?thesis
        proof (cases "is_local_ip ip")
          case True
          with Some w show ?thesis by (simp add: address_answer_def)
        next
          case False
          with Some connected_told [OF established_told refl False] show ?thesis by simp
        qed
      qed
    next
      case (4 es found es' r)
      have f: "found_address ?host (es @ es') = found"
        using 4 found_address_after [of es' ?host es] by simp
      have "connect_answer config (Some (raw_host, port)) (es @ es') = address_answer port found es'"
        using 4(1) True f resolver_silent_answer [of es]
        by (simp add: connect_answer_def address_answer_def split: option.splits)
      then show ?case
        using 4 resolver_silent_answer [of es] unfolding told_def by (auto split: res.splits)
    qed simp_all
  qed
qed

lemma probe_defense_told: "does (told BENIGN_NGINX_404_RESPONSE) (handle_active_probe_defense env)"
  unfolding handle_active_probe_defense_def
  by (rule does_bind [OF does_attempt_write_all, where Q = "\<lambda>_ es r. es = [] \<and> r = Ok ()"])
    (auto simp: does_ok told_def take_is_prefix)

lemma redirect_told: "does (told (redirect_response (redirect_host req))) (handle_plaintext_redirect env req)"
  using vectored.sends_content [of Client "[HTTP_301_PREFIX, utf8 (redirect_host req), HTTP_301_SUFFIX]" env]
  by (intro told_delivers) (simp add: redirect_writes redirect_response_def)

lemma dispatch_told: "does (\<lambda>es r. told (request_answer config req es) es r) (dispatch_request uc env resolver config req)"
  using connect_tunnel_told [of config _ uc env resolver] redirect_told [of req env] probe_defense_told [of env]
  by (simp add: dispatch_request_def request_answer_def starts_with_def Let_def)

lemma handle_client_told: "does (\<lambda>es r. told (due config es) es r) (handle_client uc env resolver config)"
proof -
  let ?go = "\<lambda>req. if req = [] then okI () else dispatch_request uc env resolver config (decode_request req)"
  let ?Q = "\<lambda>req es r. told (if req = [] then [] else request_answer config (decode_request req) es) es r"
  have go: "does (?Q req) (?go req)" for req
    using dispatch_told by (cases "req = []") (simp_all add: does_ok told_def [of "[]"])
  have read: "does (\<lambda>es r. told (due config es) es r) (bindI (tcp_read env Client CLIENT_BUF_SIZE) ?go)"
  proof (rule does_bind [OF does_read go], goal_cases)
    case (3 es req es' r)
    have "due config (Received Client req # es') = (if req = [] then [] else request_answer config (decode_request req) es')"
      using neutral_before [of "[Received Client req]" config _ es'] by (simp add: due_def)
    with 3 told_before [of _ es' r "[Received Client req]"] show ?case by simp
  qed (auto simp: due_def told_def)
  have "told (due config (e # es)) (e # es) r"
    if "told (due config es) es r" "e = Option_Set Client Nodelay \<or> e = Option_Failed Client Nodelay" for e es r
  proof -
    have "due config (e # es) = due config es"
      using that(2) neutral_before [of "[e]" config _ es] by (auto simp: due_def split: option.splits)
    with that told_before [of _ es r "[e]"] show ?thesis by auto
  qed
  then show ?thesis
    unfolding handle_client_def by (intro does_bind [OF does_set_option read]) auto
qed


section \<open>Properties\<close>

text \<open>
  C4: The client is told one answer, and the right one. It is determined by what happened on the connection:
  nothing for a connection without a request; for a CONNECT request 400 when it has no target, 403 when
  the target or its address is local, 502 when no address was found or the connection to it could
  not be made, 200 when it was made; the redirect to its host for a GET or POST request; the 404 page for
  everything else. When the handler succeeds the client has received exactly this answer (of the 404 page
  possibly a part, after a failed write), and when it fails a prefix of it.
\<close>

theorem client_gets_one_answer:
  "\<exists>r es. handle_client uc env resolver config h = (r, h @ es) \<and>
    (case r of
       Ok _ \<Rightarrow> sent Client es = due config es \<or>
         (due config es = BENIGN_NGINX_404_RESPONSE \<and> Failed Client \<in> set es \<and> prefix (sent Client es) (due config es))
     | Err _ \<Rightarrow> prefix (sent Client es) (due config es)
     | Panicked \<Rightarrow> False)"
  using doesD [OF handle_client_told [of config uc env resolver], of h] unfolding told_def by blast

end
