(* ===== verification/Unit_Tests.thy ===== *)
theory Unit_Tests
  imports Utils Dns Cli_Args Tls_Fragmenter
begin

text \<open>
  The unit tests of the crate, translated like the rest of it, and evaluated: a check of the model
  against the behaviour its authors have recorded. A test is a boolean, the conjunction of its
  assertions; a panic in it is a failure. The tests run on a 64-bit target.
\<close>

section \<open>The parser and the fragmenter\<close>

definition returns :: "('a \<Rightarrow> bool) \<Rightarrow> 'a rust \<Rightarrow> bool" where
  "returns P r = (case r of Panic \<Rightarrow> False | Val x \<Rightarrow> P x)"

definition test_client_hello :: bytes where
  "test_client_hello = build_synthetic_client_hello (Some (utf8 (lit ''example.com''))) False"

definition test_is_client_hello :: bool where
  "test_is_client_hello \<longleftrightarrow>
     is_client_hello
       [TLS_CONTENT_TYPE_HANDSHAKE, 0x03, 0x03, 0x00, 0x10, HANDSHAKE_TYPE_CLIENT_HELLO] = Val True \<and>
     is_client_hello (utf8 (lit ''GET / HTTP/1.1'' @ [13, 10])) = Val False"

definition test_find_sni_info :: bool where
  "test_find_sni_info \<longleftrightarrow>
     returns (\<lambda>sni. case sni of
        None \<Rightarrow> False
      | Some info \<Rightarrow>
          hostname_length info = length (utf8 (lit ''example.com'')) \<and>
          returns (\<lambda>extracted. from_utf8 extracted = Some (lit ''example.com''))
            (slice test_client_hello (hostname_offset info) (hostname_offset info + hostname_length info)))
       (find_sni_info test_client_hello)"

definition test_find_extensions_length_offset :: bool where
  "test_find_extensions_length_offset \<longleftrightarrow>
     returns (\<lambda>offset. offset \<noteq> None) (find_extensions_length_offset test_client_hello)"

definition test_read_u16 :: bool where
  "test_read_u16 \<longleftrightarrow>
     (let data = [0x12, 0x34, 0x56] in
      read_u16 data 0 = Val (Some 0x1234) \<and> read_u16 data 1 = Val (Some 0x3456) \<and>
      read_u16 data 2 = Val None)"

definition test_fragment_at_offset :: bool where
  "test_fragment_at_offset \<longleftrightarrow>
     returns (\<lambda>(rec1, rec2). case rec2 of
        None \<Rightarrow> False
      | Some rec2 \<Rightarrow>
          header rec1 ! 0 = 0x16 \<and> header rec2 ! 0 = 0x16 \<and>
          header rec1 ! 1 = test_client_hello ! 1 \<and> header rec1 ! 2 = test_client_hello ! 2 \<and>
          header rec2 ! 1 = test_client_hello ! 1 \<and> header rec2 ! 2 = test_client_hello ! 2 \<and>
          length (payload rec1) + length (payload rec2) = length test_client_hello - TLS_RECORD_HEADER_SIZE \<and>
          \<not> record_is_empty rec1 \<and> \<not> record_is_empty rec2)
       (fragment_at_offset test_client_hello 40)"

lemma tls_tests_pass:
  "test_is_client_hello" "test_find_sni_info" "test_find_extensions_length_offset" "test_read_u16"
  "test_fragment_at_offset"
  by code_simp+


section \<open>The resolver\<close>



definition test_build_dns_query :: bool where
  "test_build_dns_query \<longleftrightarrow>
     returns (\<lambda>(query, len). len > DNS_HEADER_SIZE \<and> query ! 2 = 0x01 \<and> query ! 3 = 0x00)
       (build_dns_query (lit ''example.com''))"

definition test_dns_resolver_new_defaults :: bool where
  "test_dns_resolver_new_defaults \<longleftrightarrow>
     dns_addr (new_resolver (lit '''')) = DEFAULT_DNS_ADDR \<and>
     dns_addr (new_resolver (lit ''8.8.8.8'')) = lit ''8.8.8.8:53'' \<and>
     dns_addr (new_resolver (lit ''1.1.1.1:53'')) = lit ''1.1.1.1:53''"

definition test_question :: bytes where
  "test_question =
     [7] @ utf8 (lit ''example'') @ [3] @ utf8 (lit ''com'') @ [0, 0x00, 0x01, 0x00, 0x01]"

definition test_parse_dns_response_valid_a_record :: bool where
  "test_parse_dns_response_valid_a_record \<longleftrightarrow>
     parse_dns_response
       ([0x00, 0x01, 0x81, 0x80, 0x00, 0x01, 0x00, 0x01, 0x00, 0x00, 0x00, 0x00] @ test_question @
        [0xC0, 0x0C, 0x00, 0x01, 0x00, 0x01, 0x00, 0x00, 0x01, 0x2C, 0x00, 0x04, 93, 184, 216, 34]) =
     Val (Some (V4 93 184 216 34))"

definition test_parse_dns_response_filters_type65 :: bool where
  "test_parse_dns_response_filters_type65 \<longleftrightarrow>
     parse_dns_response
       ([0x00, 0x01, 0x81, 0x80, 0x00, 0x01, 0x00, 0x02, 0x00, 0x00, 0x00, 0x00] @ test_question @
        [0xC0, 0x0C, 0x00, 65, 0x00, 0x01, 0x00, 0x00, 0x00, 60, 0x00, 0x05, 0x01, 0x02, 0x03, 0x04, 0x05] @
        [0xC0, 0x0C, 0x00, 0x01, 0x00, 0x01, 0x00, 0x00, 0x00, 60, 0x00, 0x04, 1, 1, 1, 1]) =
     Val (Some (V4 1 1 1 1))"

lemma dns_tests_pass:
  "test_build_dns_query" "test_dns_resolver_new_defaults" "test_parse_dns_response_valid_a_record"
  "test_parse_dns_response_filters_type65"
  by code_simp+


section \<open>The text functions\<close>

definition test_strip_proxy_headers :: bool where
  "test_strip_proxy_headers \<longleftrightarrow>
     (let crlf = [13, 10];
          req = lit ''CONNECT youtube.com:443 HTTP/1.1'' @ crlf @ lit ''Via: 1.1 proxy'' @ crlf @
            lit ''Proxy-Connection: keep-alive'' @ crlf @ lit ''Host: youtube.com'' @ crlf @ crlf;
          cleaned = strip_proxy_headers req in
      \<not> contains_str cleaned (lit ''Via:'') \<and>
      \<not> contains_str cleaned (lit ''Proxy-Connection:'') \<and>
      contains_str cleaned (lit ''Host: youtube.com''))"

definition test_is_padding_incompatible_domain :: bool where
  "test_is_padding_incompatible_domain \<longleftrightarrow>
     (let padding_incompatible = is_padding_incompatible_domain (\<lambda>s. s) in
      padding_incompatible (lit ''instagram.com'') \<and> padding_incompatible (lit ''www.instagram.com'') \<and>
      padding_incompatible (lit ''facebook.com'') \<and> padding_incompatible (lit ''whatsapp.com'') \<and>
      \<not> padding_incompatible (lit ''youtube.com'') \<and> \<not> padding_incompatible (lit ''wikipedia.org''))"

definition test_space_insertion_and_case_mixing :: bool where
  "test_space_insertion_and_case_mixing \<longleftrightarrow>
     (let crlf = [13, 10];
          req = lit ''CONNECT instagram.com:443 HTTP/1.1'' @ crlf @ lit ''Host: instagram.com:443'' @ crlf @
            lit ''User-Agent: curl/7.68.0'' @ crlf @ crlf;
          preprocessed = preprocess_http_request req True True in
      is_http_connect req \<and> parse_connect_target req = Some (lit ''instagram.com'', 443) \<and>
      contains_str preprocessed (lit ''instagram.com:443'') \<and> is_http_connect preprocessed \<and>
      parse_connect_target preprocessed = Some (lit ''instagram.com'', 443) \<and>
      contains_str preprocessed (lit ''   '') \<and> contains_str preprocessed (lit ''hOsT:''))"

definition test_strip_alt_svc_headers :: bool where
  "test_strip_alt_svc_headers \<longleftrightarrow>
     (let crlf = [13, 10];
          resp = lit ''HTTP/1.1 200 OK'' @ crlf @ lit ''Content-Type: text/html'' @ crlf @
            lit ''Alt-Svc: h3=\":443\"; ma=86400'' @ crlf @ lit ''alt-svc: h3-29=\":443\"'' @ crlf @
            lit ''Server: gws'' @ crlf @ crlf;
          cleaned = strip_alt_svc_headers resp in
      \<not> contains_str cleaned (lit ''Alt-Svc:'') \<and> \<not> contains_str cleaned (lit ''alt-svc:'') \<and>
      contains_str cleaned (lit ''Server: gws''))"

definition test_ensure_trailing_dot :: bool where
  "test_ensure_trailing_dot \<longleftrightarrow>
     ensure_trailing_dot (lit ''youtube.com'') = lit ''youtube.com.'' \<and>
     ensure_trailing_dot (lit ''youtube.com.'') = lit ''youtube.com.'' \<and>
     ensure_trailing_dot (lit ''127.0.0.1'') = lit ''127.0.0.1'' \<and>
     ensure_trailing_dot (lit '''') = lit ''''"

definition test_mix_case :: bool where
  "test_mix_case \<longleftrightarrow>
     mix_case (lit ''Host'') = lit ''hOsT'' \<and> mix_case (lit ''User-Agent'') = lit ''uSeR-AgEnT''"

lemma text_tests_pass:
  "test_strip_proxy_headers" "test_is_padding_incompatible_domain" "test_space_insertion_and_case_mixing"
  "test_strip_alt_svc_headers" "test_ensure_trailing_dot" "test_mix_case"
  by code_simp+


section \<open>The command line\<close>

definition usize_max_64 :: int where
  "usize_max_64 = 18446744073709551615"

definition test_default_cli_values :: bool where
  "test_default_cli_values \<longleftrightarrow>
     (let cli = default_cli in
      cli_port cli = 8080 \<and> cli_bind cli = lit ''127.0.0.1'' \<and> cli_dns_addr cli = lit ''127.0.0.1:53'' \<and>
      cli_fake_sni cli = lit '''' \<and> cli_fake_ttl cli = 0 \<and> cli_window_shrink cli = 0 \<and>
      cli_http_space cli \<and> cli_mix_header_case cli \<and> cli_strip_alt_svc cli \<and> cli_port_rotate cli \<and>
      cli_trailing_dot cli \<and> cli_filter_type65 cli \<and> cli_fallback_target cli = lit ''127.0.0.1:80'')"

definition test_parse_from_custom_flags :: bool where
  "test_parse_from_custom_flags \<longleftrightarrow>
     (case parse_from usize_max_64 (map lit
        [''greentunnelRS'', ''--port'', ''9090'', ''--bind'', ''0.0.0.0'', ''-d'', ''1.1.1.1:53'', ''-v'',
         ''-F'', ''5'', ''--fake-sni'', ''google.com'', ''-W'', ''4096'', ''--fallback-target'',
         ''192.168.1.1:80'']) of
        Parsed cli \<Rightarrow>
          cli_port cli = 9090 \<and> cli_bind cli = lit ''0.0.0.0'' \<and> cli_dns_addr cli = lit ''1.1.1.1:53'' \<and>
          cli_verbose cli \<and> cli_fake_ttl cli = 5 \<and> cli_fake_sni cli = lit ''google.com'' \<and>
          cli_window_shrink cli = 4096 \<and> cli_fallback_target cli = lit ''192.168.1.1:80''
      | _ \<Rightarrow> False)"

definition test_parse_from_equals_syntax :: bool where
  "test_parse_from_equals_syntax \<longleftrightarrow>
     (case parse_from usize_max_64 (map lit
        [''greentunnelRS'', ''--port=9999'', ''--bind=10.0.0.1'', ''--dns-addr=8.8.8.8:53'', ''--fake-ttl=10'',
         ''--fake-sni=cloudflare.com'', ''--window-shrink=8192'', ''--fallback-target=10.0.0.1:8080'']) of
        Parsed cli \<Rightarrow>
          cli_port cli = 9999 \<and> cli_bind cli = lit ''10.0.0.1'' \<and> cli_dns_addr cli = lit ''8.8.8.8:53'' \<and>
          cli_fake_ttl cli = 10 \<and> cli_fake_sni cli = lit ''cloudflare.com'' \<and>
          cli_window_shrink cli = 8192 \<and> cli_fallback_target cli = lit ''10.0.0.1:8080''
      | _ \<Rightarrow> False)"

lemma cli_tests_pass:
  "test_default_cli_values" "test_parse_from_custom_flags" "test_parse_from_equals_syntax"
  by code_simp+

end
