(* ===== verification/Spec2Isabelle.thy ===== *)
theory Spec2Isabelle
  imports Process Answers Unit_Tests
begin

text \<open>
  GreenTunnel (Rust), a local HTTP proxy that evades deep packet inspection. A browser sends it a
  \<^verbatim>\<open>CONNECT\<close> request; the proxy resolves the name with a DNS query of its own, connects to the
  server, answers 200, takes the first bytes of the client, which are a TLS ClientHello, and
  sends them as two TLS records cut inside the server name, in small segments with a pause
  between. From then on it copies bytes both ways. Plain HTTP is answered with a redirect to
  https, everything else with the 404 page of a web server. All paths below are relative to the
  crate, \<^verbatim>\<open>src/src/\<close> of the checkout.

  \<^bold>\<open>The theories and the code.\<close>

  \<^item> \<open>Tls_Parser\<close>, \<^verbatim>\<open>tls/parser.rs\<close>. \<open>find_sni_info\<close>, with the loop over the extensions as
    \<open>scan_extensions\<close>, \<open>is_client_hello\<close>, \<open>read_u16\<close>, \<open>find_extensions_length_offset\<close> and
    \<open>build_synthetic_client_hello\<close>. Specification: \<open>hello\<close>, a ClientHello as a structure, and
    \<open>encode_hello\<close>. Shown: no read is out of range and the name found lies in the buffer; the
    name of every well-formed hello is found; a hello without the extension yields none; the
    synthetic hello parses back to its name.
  \<^item> \<open>Tls_Fragmenter\<close>, \<^verbatim>\<open>tls/fragmenter.rs\<close>. \<open>fragment_at_offset\<close>, \<open>build_tls_header\<close> and the
    record \<open>tls_record_slice\<close>. Specification: the record layer of the receiver, \<open>deframe\<close>.
    The locale \<open>record_splitter\<close> is the contract; shown: the exact result on every input, with the place of
    the cut; splitting a complete record leaves what
    the receiver collects unchanged, and splitting a partly received one does not.
  \<^item> \<open>Rust_Str\<close> and \<open>Ip_Addr\<close>: what the program uses of \<^verbatim>\<open>str\<close> and \<^verbatim>\<open>std::net\<close> (splitting,
    lines, trimming, case, numbers, UTF-8 decoding with replacement; addresses and their parser),
    as executable functions with the laws the proofs need, such as that the address parser reads
    back what is printed.
  \<^item> \<open>Utils\<close>, the text functions of \<^verbatim>\<open>utils.rs\<close>: \<open>parse_connect_target\<close>, \<open>strip_proxy_headers\<close>,
    \<open>apply_header_case_mixing\<close>, \<open>preprocess_http_request\<close>, \<open>strip_alt_svc_headers\<close>,
    \<open>is_padding_incompatible_domain\<close>, \<open>ensure_trailing_dot\<close>. The locale \<open>request_pass\<close> is the
    contract of the passes over a request. Shown: the exact header lines of the cleaned request;
    cleaning never changes the target; a printed CONNECT request reads back to its target; the
    domain filter never applies to a name with a trailing dot.
  \<^item> \<open>Dns\<close>, the pure part of \<^verbatim>\<open>dns/resolver.rs\<close>: \<open>build_dns_query\<close>, \<open>parse_dns_response\<close> with
    its three loops. Specification: \<open>dns_message\<close> and \<open>encode_message\<close>, and a reader of queries after
    RFC 1035, \<open>read_query\<close>. Shown: the query is the encoding of a standard query, and reads back to the
    labels of the name when none is longer than 63 bytes; the parser returns the first A record of every well-formed
    response, never panics, and does not look at the transaction id.
  \<^item> \<open>Cli_Args\<close>, \<^verbatim>\<open>args.rs\<close>: \<open>Cli::parse_from\<close>, and \<open>Cli::parse\<close> on the arguments of the process. Shown: the command line that sets every option
    reads back to the configuration; the two forms of an option agree at every position; no
    command line turns one of the six switches off.
  \<^item> \<open>Cli_Help\<close>: the help page and the version line of \<^verbatim>\<open>args.rs\<close>. Shown: the options the page lists
    are those the parser knows, with one exception, and its defaults are the defaults.
  \<^item> \<open>Net_Io\<close>: the world, see below. Not code of the repository. The locale \<open>event_order\<close> has what a proof about
    the order of events needs; its instances are the two layers of the probe discipline in \<open>Proxy\<close> and the
    order of a tunnel here.
  \<^item> \<open>Net_Send\<close>: \<open>split_and_write\<close> and \<open>random_delay\<close> of \<^verbatim>\<open>utils.rs\<close>, \<open>write_all_vectored\<close> and
    \<open>transmit_tls_records\<close> of \<^verbatim>\<open>proxy.rs\<close>. The locale \<open>byte_sender\<close> is their contract: exactly
    the content on success, a prefix of it on an error, no other connection touched; all three
    senders are instances. Also shown: the pause lies between the two records, and the sizes of
    the segments.
  \<^item> \<open>Dns_Client\<close>: \<open>DnsResolver::resolve\<close> and \<open>query_udp\<close> with their two attempts. Shown: where
    an address can come from, what is sent to whom, and that the first usable answer decides. The
    locale \<open>quiet_resolver\<close> is what the handlers rely on; \<open>resolve\<close> and, in \<open>Proxy\<close>, the lookup with the
    system resolver behind it, \<open>find_remote_ip\<close>, are its instances.
  \<^item> \<open>Proxy\<close>: the handlers of \<^verbatim>\<open>proxy.rs\<close>, from \<open>handle_client\<close> to \<open>inject_fake_ttl_probe\<close>.
    The tail of \<open>handle_connect_tunnel\<close> that deals with the first bytes of the client is the
    definition \<open>relay_client_hello\<close>. Shown: the refinement of the relay against the receiver's
    record layer, the addresses that are connected to, the outbound socket, the redirect, and the whole course
    of the fake probe (\<open>probe_script\<close>): when it is sent, once, in which place, with which option and bytes.
  \<^item> \<open>Tunnel_Live\<close>: the calls succeed, and a CONNECT request ends in the tunnel (\<open>completes\<close>,
    \<open>tunnels\<close>). This complements the safety properties, which an operation that always fails
    would satisfy too. Also here: a name that resolves to an IPv4-mapped loopback address is connected to.
  \<^item> \<open>Answers\<close>: the table of the answers, \<open>due\<close>, a function of the events of a connection (the request read, the
    address found, whether the connection was made), and the proof that the client is told exactly this answer.
  \<^item> \<open>Server\<close>: \<open>main\<close> and the log filter of \<^verbatim>\<open>main.rs\<close>, \<open>run_server\<close> and \<open>run_worker_listener\<close>
    of \<^verbatim>\<open>proxy.rs\<close>. The accept loop is the step relation \<open>worker_step\<close>: a connection is accepted, accepting
    fails, one further event happens on a connection, a connection ends. A running task keeps the events so
    far, a prefix of the run of \<open>handle_client\<close> in its environment (\<open>task_run\<close>); this is the invariant, proved by
    induction over \<open>reachable\<close>.
  \<^item> \<open>Process\<close>: the process as a whole, the main thread that spawns and joins the workers and the
    worker threads themselves, interleaved in \<open>process_step\<close>. A panic of a thread (a runtime that cannot be
    built) ends the process when the build has \<^verbatim>\<open>panic = "abort"\<close>, as the release profile does, and only the thread
    otherwise (\<open>panic_aborts\<close>). \<open>run_server\<close> lists the ends the process may come to and is its abstract
    specification; shown: every execution that ends agrees with it, every listed end occurs, and from every
    reachable state an end stays reachable. No step of a thread or a connection changes another connection.
  \<^item> \<open>Unit_Tests\<close>: the unit tests of the crate, translated and evaluated on the model.
  \<^item> This theory: properties of a whole connection and of the whole process. The order of a tunnel, where a tunnel
    leads, the options that make no difference, what holds of every connection at every moment, and that every
    live worker can serve a further client.

  \<^bold>\<open>Panics, errors, loops.\<close> A computation that may panic (an index or slice out of range, an
  underflowing subtraction) has the type \<open>rust\<close> with the values \<open>Panic\<close> and \<open>Val\<close>, so that the
  absence of panics is a theorem and not a convention. Every loop is a total function, by
  structural recursion or with a measure; there is no fuel, and no \<open>partial_function\<close>. The loop
  of \<open>write_all_vectored\<close> ends because a vectored write that accepts nothing is an error in the
  code. Fields on the wire are words of 8 and 16 bits and the casts are \<open>of_nat\<close>, which wraps as
  the code does; a \<open>usize\<close> is a \<open>nat\<close>, since all offsets are sums of lengths of buffers of a few
  kilobytes and 16-bit fields. The command line is the exception, where a \<open>usize\<close> is read from
  the user: the parser takes the largest \<open>usize\<close>, \<open>usize_max\<close>, as a parameter.

  \<^bold>\<open>The world.\<close> The operating system, tokio and the random generator are the parameter \<open>env\<close>, a
  record of functions from the history of the connection (and the arguments of the call) to the
  answer of the call. An operation maps a history to its result (\<open>Ok\<close>, \<open>Err\<close>, \<open>Panicked\<close>) and the
  longer history. Socket options and local binds may be refused, which the program ignores; the history tells
  (\<open>Option_Failed\<close>). The safety properties hold for every \<open>env\<close>, whatever fails and however short the
  reads and the vectored writes are, and no hypothesis restricts it. \<open>does P m\<close> says that the
  operation \<open>m\<close> appends events that satisfy \<open>P\<close>; \<open>emits Q m\<close> that it does not panic
  and every appended event is in \<open>Q\<close>. A read that never returns is not an outcome; the safety properties speak of prefixes
  of the sent bytes, and cover the history before such a read through the case that it fails.
  The second parameter, \<open>uc\<close>, is the Unicode lower-casing of text that is not ASCII.

  \<^bold>\<open>Not modelled.\<close> The log lines of the handlers (pure output, formatted by the tracing crate) and a failing
  standard output; the copying inside an established tunnel, which is \<^verbatim>\<open>copy_bidirectional\<close> of tokio and one
  call here; the fairness of the tokio runtime, of which a failing construction is an outcome; the deadline of
  the DNS attempt, which is the answer \<open>None\<close> of \<open>on_udp_recv\<close>; the scripts, containers and build files. The
  probe and the main connection are sequential in the code, so no interleaving inside one connection exists;
  connections interleave event by event in \<open>worker_step\<close>, and threads in \<open>process_step\<close>.

  \<^bold>\<open>What the modelling showed.\<close> The bytes behind a first record that is not split are
  dropped; a ClientHello that arrives in parts is split as if it were complete; the trailing dot
  switches the domain filter off; the check against local addresses does not see IPv4-mapped
  ones; labels of more than 63 bytes are written into a query; an IPv6 literal is misread; the decoy is sent with the
  default TTL when the system refuses the configured one; several documented options have no
  effect; a failing bind ends the program with success. Each of these is a theorem, marked by its
  text.
\<close>

section \<open>The order of a tunnel\<close>

text \<open>
  A run of the handler up to its end: nothing is written to the server before the client has been
  told that the tunnel is established and has sent its first bytes; then the server receives a
  prefix of what the relay makes of those bytes, and the client nothing more from the proxy.
\<close>

definition tunnel_order :: "history \<Rightarrow> bool" where
  "tunnel_order es \<longleftrightarrow>
     sent Remote es = [] \<or>
     (\<exists>es1 raw es2. es = es1 @ [Received Client raw] @ es2 \<and> sent Remote es1 = [] \<and>
        sent Client es1 = HTTP_200_ESTABLISHED \<and> sent Client es2 = [] \<and>
        (\<exists>p \<in> outbound raw. prefix (sent Remote es2) p))"

lemma relay_does:
  "does (\<lambda>es r. r \<noteq> Panicked \<and> sent Client es = [] \<and> (\<exists>p \<in> outbound raw. prefix (sent Remote es) p))
     (relay_client_hello env config host addr meta raw)"
  by (rule does_mono [OF does_conj [OF relay_outbound [unfolded answers_def] silent_relay [unfolded emits_def]]])
    (auto simp: silent_on_sent split: res.splits)

lemma established_order:
  "does (\<lambda>es r. tunnel_order es \<and> r \<noteq> Panicked)
     (bindI (tcp_write_all env Client HTTP_200_ESTABLISHED) (\<lambda>_.
      bindI (tcp_flush env Client) (\<lambda>_.
      bindI (tcp_read env Client CLIENT_HELLO_BUF_SIZE) (\<lambda>raw_bytes.
      if raw_bytes \<noteq> [] then relay_client_hello env config host addr meta raw_bytes
      else tunnel_bidirectional env))))"
    (is "does ?P ?m")
proof (rule doesI)
  fix h
  let ?h1 = "h @ [Wrote Client HTTP_200_ESTABLISHED, Flushed Client]"
  show "\<exists>es r. ?m h = (r, h @ es) \<and> ?P es r"
  proof (cases "on_write_all env h Client HTTP_200_ESTABLISHED")
    case (Some x)
    then show ?thesis
      by (cases x) (simp add: bindI_def tcp_write_all_def tunnel_order_def)
  next
    case w: None
    show ?thesis
    proof (cases "on_flush env (h @ [Wrote Client HTTP_200_ESTABLISHED]) Client")
      case (Some e)
      with w show ?thesis
        by (simp add: bindI_def tcp_write_all_def tcp_flush_def answered_def tunnel_order_def)
    next
      case f: None
      show ?thesis
      proof (cases "on_read env ?h1 Client")
        case (Inl e)
        with w f show ?thesis
          by (simp add: bindI_def tcp_write_all_def tcp_flush_def answered_def tcp_read_def tunnel_order_def)
      next
        case (Inr bs)
        let ?raw = "take CLIENT_HELLO_BUF_SIZE bs"
        let ?es = "[Wrote Client HTTP_200_ESTABLISHED, Flushed Client, Received Client ?raw]"
        have m: "?m h = (if ?raw \<noteq> [] then relay_client_hello env config host addr meta ?raw
            else tunnel_bidirectional env) (h @ ?es)"
          using w f Inr by (simp add: bindI_def tcp_write_all_def tcp_flush_def answered_def tcp_read_def)
        show ?thesis
        proof (cases "?raw = []")
          case True
          with m show ?thesis
            by (auto simp: tunnel_bidirectional_def copy_bidirectional_def tunnel_order_def split: option.splits)
        next
          case False
          obtain es r where r: "relay_client_hello env config host addr meta ?raw (h @ ?es) = (r, (h @ ?es) @ es)"
            "r \<noteq> Panicked" "sent Client es = []" "\<exists>p \<in> outbound ?raw. prefix (sent Remote es) p"
            using doesD [OF relay_does] by metis
          have "tunnel_order (?es @ es)"
            unfolding tunnel_order_def using r(3,4)
            by (intro disjI2 exI [of _ "[Wrote Client HTTP_200_ESTABLISHED, Flushed Client]"] exI [of _ ?raw]
                exI [of _ es]) simp
          with m False r show ?thesis by auto
        qed
      qed
    qed
  qed
qed

text \<open>Events of which neither the client nor the server sees anything.\<close>

definition unseen :: "event \<Rightarrow> bool" where
  "unseen e \<longleftrightarrow> silent_on Client e \<and> silent_on Remote e"

lemma unseen_simps [simp]:
  "unseen (Connected s1 a)" "unseen (Failed s1)" "unseen (Flushed s1)"
  "unseen (Received s1 bs)" "unseen (Opened s1 v6)" "unseen (Option_Set s1 opt)" "unseen (Option_Failed s1 opt)"
  "unseen (Looked_Up n addrs)"
  by (simp_all add: unseen_def)

lemma unseen_order:
  assumes "list_all unseen es" and "tunnel_order es'"
  shows "tunnel_order (es @ es')"
proof -
  have s: "sent Client es = []" "sent Remote es = []"
    using assms(1) by (auto intro!: silent_on_sent simp: list_all_iff unseen_def)
  show ?thesis
  proof (cases "sent Remote es' = []")
    case True
    with s show ?thesis by (simp add: tunnel_order_def)
  next
    case False
    with assms(2) obtain es1 raw es2 where t: "es' = es1 @ [Received Client raw] @ es2" "sent Remote es1 = []"
      "sent Client es1 = HTTP_200_ESTABLISHED" "sent Client es2 = []" "\<exists>p \<in> outbound raw. prefix (sent Remote es2) p"
      unfolding tunnel_order_def by blast
    then show ?thesis
      unfolding tunnel_order_def using s
      by (intro disjI2 exI [of _ "es @ es1"] exI [of _ raw] exI [of _ es2]) simp
  qed
qed

interpretation ordered: event_order tunnel_order unseen
proof
  fix e es
  assume "unseen e" and "tunnel_order es"
  then show "tunnel_order (e # es)"
    using unseen_order [of "[e]" es] by simp
qed (simp add: tunnel_order_def)

lemma in_order_write: "follows tunnel_order (tcp_write_all env Client p)"
  unfolding follows_def
  by (rule does_mono [OF delivers_write_all [of Client p env, unfolded delivers_def]])
    (auto simp: tunnel_order_def split: res.splits)

lemma resolver_unseen: "resolver_event e \<Longrightarrow> unseen e"
  by (simp add: unseen_def resolver_silent_on)

lemma in_order_connect_tunnel: "follows tunnel_order (handle_connect_tunnel uc env resolver config req)"
proof -
  have resolve: "emits unseen (find_remote_ip env resolver host port)" for host port
    by (rule target.causes [OF resolver_unseen])
  have connect: "emits unseen (attempt (connect_remote_socket env a config))" for a
    unfolding connect_remote_socket_def by (intro emits_intros) simp_all
  show ?thesis
    unfolding handle_connect_tunnel_def Let_def
    by (intro follows_option follows_prod follows_if follows_sum in_order_write
        ordered.follows_bind [OF resolve] ordered.follows_bind [OF connect] established_order [folded follows_def])
qed

lemma in_order_client_only:
  assumes "emits (silent_on Remote) m"
  shows "follows tunnel_order m"
  unfolding follows_def
  by (rule does_mono [OF assms [unfolded emits_def]]) (simp add: tunnel_order_def silent_on_sent)

lemma in_order_dispatch: "follows tunnel_order (dispatch_request uc env resolver config req)"
  unfolding dispatch_request_def Let_def
  by (intro follows_if in_order_connect_tunnel in_order_client_only emits_intros) simp_all

lemma in_order_handle_client: "follows tunnel_order (handle_client uc env resolver config)"
  unfolding handle_client_def
  by (intro ordered.follows_bind follows_if in_order_dispatch in_order_client_only emits_intros) simp_all

text \<open>The order holds at every moment of a connection, not only at its end.\<close>

lemma tunnel_order_prefix:
  assumes "tunnel_order es" and "prefix p es"
  shows "tunnel_order p"
proof (cases "sent Remote p = []")
  case True
  then show ?thesis by (simp add: tunnel_order_def)
next
  case False
  from assms(2) obtain q where q: "es = p @ q" by (auto simp: prefix_def)
  with False assms(1) obtain es1 raw es2 s where t: "es = es1 @ [Received Client raw] @ es2" "sent Remote es1 = []"
    "sent Client es1 = HTTP_200_ESTABLISHED" "sent Client es2 = []" "s \<in> outbound raw" "prefix (sent Remote es2) s"
    by (auto simp: tunnel_order_def)
  have "\<not> prefix p (es1 @ [Received Client raw])"
    using False t(2) by (auto simp: prefix_def) (metis append_is_Nil_conv sent_simps(3) written_simps(2) append_Nil2 sent_simps(1,2))
  moreover have "prefix (es1 @ [Received Client raw]) es" "prefix p es"
    using t(1) assms(2) by (auto simp: prefix_def)
  ultimately have "prefix (es1 @ [Received Client raw]) p"
    using prefix_same_cases by blast
  then obtain p2 where p2: "p = es1 @ [Received Client raw] @ p2" by (auto simp: prefix_def)
  with q t(1) have "es2 = p2 @ q" by simp
  with t(4,6) have "sent Client p2 = []" "prefix (sent Remote p2) s"
    by (auto dest: append_prefixD)
  with p2 t(2,3,5) show ?thesis
    unfolding tunnel_order_def by blast
qed


section \<open>Where a tunnel leads\<close>

text \<open>A connection goes to the requested port, and to the address itself when the target is a literal.\<close>

definition leads_to :: "(rstr \<times> u16) option \<Rightarrow> event \<Rightarrow> bool" where
  "leads_to target e =
     (case e of
        Connected _ a \<Rightarrow>
          (case target of
             None \<Rightarrow> False
           | Some (host, port) \<Rightarrow> sa_port a = port \<and>
               (case parse_ip (trim_end_matches 46 host) of None \<Rightarrow> True | Some ip \<Rightarrow> sa_ip a = ip))
      | _ \<Rightarrow> True)"

lemma leads_to_simps [simp]:
  "leads_to t (Wrote s bs)" "leads_to t (Failed s)" "leads_to t (Flushed s)"
  "leads_to t (Received s bs)" "leads_to t (Opened s v6)" "leads_to t (Option_Set s opt)" "leads_to t (Option_Failed s opt)"
  "leads_to t (Looked_Up n addrs)" "leads_to t (Drew lo hi v)" "leads_to t (Slept k)"
  "leads_to t (Tunnelled s1 s2)"
  by (simp_all add: leads_to_def)

lemma resolver_leads_to: "resolver_event e \<Longrightarrow> leads_to t e"
  by (auto simp: resolver_event_def leads_to_def split: event.splits)

lemma trim_ensure_trailing_dot: "trim_end_matches 46 (ensure_trailing_dot host) = trim_end_matches 46 host"
  using ensure_trailing_dot_cases [of host] by auto

lemma leads_connect_tunnel:
  "emits (leads_to (parse_connect_target req)) (handle_connect_tunnel uc env resolver config req)"
proof (cases "parse_connect_target req")
  case None
  then show ?thesis
    unfolding handle_connect_tunnel_def None option.case by (intro emits_intros) simp_all
next
  case (Some t)
  then obtain raw_host port where t: "parse_connect_target req = Some (raw_host, port)"
    by (cases t) auto
  let ?P = "leads_to (Some (raw_host, port))"
  let ?host = "if trailing_dot config then ensure_trailing_dot raw_host else raw_host"
  let ?lit = "parse_ip (trim_end_matches 46 raw_host)"
  let ?rest = "\<lambda>ip. bindI (attempt (connect_remote_socket env \<lparr>sa_ip = ip, sa_port = port\<rparr> config)) (\<lambda>connected. case connected of
      Inl _ \<Rightarrow> tcp_write_all env Client HTTP_502_BAD_GATEWAY
    | Inr _ \<Rightarrow>
        bindI (tcp_write_all env Client HTTP_200_ESTABLISHED) (\<lambda>_.
        bindI (tcp_flush env Client) (\<lambda>_.
        bindI (tcp_read env Client CLIENT_HELLO_BUF_SIZE) (\<lambda>raw_bytes.
        if raw_bytes \<noteq> [] then relay_client_hello env config ?host \<lparr>sa_ip = ip, sa_port = port\<rparr>
          (is_padding_incompatible_domain uc ?host) raw_bytes
        else tunnel_bidirectional env))))"
  have rest: "emits ?P (?rest ip)" if "case ?lit of None \<Rightarrow> True | Some l \<Rightarrow> ip = l" for ip
    unfolding connect_remote_socket_def relay_client_hello_def inject_fake_ttl_probe_def tunnel_bidirectional_def
    by (intro emits_intros safe_parsers) (use that in \<open>simp_all add: leads_to_def split: option.splits\<close>)
  have found: "emits ?P (bindI (find_remote_ip env resolver ?host port) (\<lambda>found. case found of
      None \<Rightarrow> tcp_write_all env Client HTTP_502_BAD_GATEWAY
    | Some ip \<Rightarrow> if is_local_ip ip then tcp_write_all env Client HTTP_403_FORBIDDEN else ?rest ip))"
  proof (cases ?lit)
    case None
    have "emits ?P (find_remote_ip env resolver ?host port)"
      by (rule target.causes [OF resolver_leads_to])
    then show ?thesis
      by (intro emits_bind emits_option emits_if rest emits_write_all) (simp_all add: None)
  next
    case (Some ip)
    then have "parse_ip (trim_end_matches 46 ?host) = Some ip"
      by (simp add: trim_ensure_trailing_dot)
    from find_remote_ip_literal [OF this] show ?thesis
      using rest [of ip] Some by (auto intro!: emits_write_all)
  qed
  show ?thesis
    using found unfolding handle_connect_tunnel_def t Let_def
    by (simp add: emits_write_all)
qed


section \<open>Switches without effect\<close>

lemma config_irrelevant:
  fixes config :: proxy_config
  assumes c: "c = config\<lparr>http_space := x1, mix_header_case := x2, strip_alt_svc := x3, filter_type65 := x4,
    fallback_target := x5\<rparr>"
  shows "trailing_dot c = trailing_dot config" and "fake_ttl c = fake_ttl config" and "fake_sni c = fake_sni config"
    and "connect_remote_socket env a c = connect_remote_socket env a config"
    and "relay_client_hello env c host a meta raw = relay_client_hello env config host a meta raw"
proof -
  have s: "trailing_dot c = trailing_dot config" "fake_ttl c = fake_ttl config" "fake_sni c = fake_sni config"
    "port_rotate c = port_rotate config" "window_shrink c = window_shrink config"
    by (simp_all add: c)
  show "relay_client_hello env c host a meta raw = relay_client_hello env config host a meta raw"
    and "connect_remote_socket env a c = connect_remote_socket env a config"
    unfolding relay_client_hello_def connect_remote_socket_def s by (rule refl)+
qed (simp_all add: c)

lemma connect_tunnel_cong:
  assumes "parse_connect_target a = parse_connect_target b"
  shows "handle_connect_tunnel uc env resolver
      (config\<lparr>http_space := x1, mix_header_case := x2, strip_alt_svc := x3, filter_type65 := x4, fallback_target := x5\<rparr>) a =
    handle_connect_tunnel uc env resolver config b"
  unfolding handle_connect_tunnel_def assms config_irrelevant [OF refl] ..


section \<open>The connections of the process\<close>

text \<open>
  What the configuration allows on a connection: queries go to its DNS server, the sockets get its options, and
  the probe socket is used only for its probe.
\<close>

definition option_configured :: "proxy_config \<Rightarrow> sock \<Rightarrow> sock_option \<Rightarrow> bool" where
  "option_configured config s opt =
     (case opt of
        Bound _ \<Rightarrow> s = Remote \<and> port_rotate config
      | Ttl t \<Rightarrow> s = Probe \<and> t = fake_ttl config
      | Recv_Buffer n \<Rightarrow> s = Remote \<and> 0 < window_shrink config \<and> n = max (window_shrink config) 4096
      | Send_Buffer n \<Rightarrow> s = Remote \<and> 0 < window_shrink config \<and> n = max (window_shrink config) 4096
      | _ \<Rightarrow> s \<noteq> Probe)"

fun configured :: "proxy_config \<Rightarrow> event \<Rightarrow> bool" where
  "configured config (Udp_Sent t m) = (parse_socket_addr (dns_addr (new_resolver (config_dns_addr config))) = Some t)"
| "configured config (Option_Set s opt) = option_configured config s opt"
| "configured config (Option_Failed s opt) = option_configured config s opt"
| "configured config (Connected s a) =
     (s = Remote \<or> (s = Probe \<and> 0 < fake_ttl config \<and> fake_sni config \<noteq> []))"
| "configured config (Wrote s bs) =
     (s = Probe \<longrightarrow> prefix bs (build_synthetic_client_hello (Some (utf8 (fake_sni config))) False))"
| "configured config _ = True"

lemma resolver_configured:
  "emits (configured config) (find_remote_ip env (new_resolver (config_dns_addr config)) host port)"
proof -
  let ?self = "new_resolver (config_dns_addr config)"
  have "emits (configured config) (resolve env ?self host)"
    unfolding emits_def
  proof (rule does_mono [OF resolve_does], goal_cases)
    case (1 es r)
    then have "set (datagrams es) \<subseteq> {(t, m). parse_socket_addr (dns_addr ?self) = Some t}" "list_all resolver_event es"
      and "r \<noteq> Panicked"
      by (auto simp: resolve_post_def Let_def split: res.splits)
    moreover from this(1,2) have "list_all (configured config) es"
      by (induction es) (auto simp: resolver_event_def split: event.splits)
    ultimately show ?case by simp
  qed
  then show ?thesis
    unfolding find_remote_ip_def by (intro emits_intros) simp_all
qed

lemma configured_handle_client:
  "emits (configured config) (handle_client uc env (new_resolver (config_dns_addr config)) config)"
  unfolding handle_client_def dispatch_request_def handle_connect_tunnel_def connect_remote_socket_def
    relay_client_hello_def inject_fake_ttl_probe_def tunnel_bidirectional_def
  by (intro emits_intros safe_parsers resolver_configured)
    (simp_all add: option_configured_def take_is_prefix)

text \<open>
  A connection task at any moment. Every event so far is one the configuration allows and none connects to a local
  address, and the order of a tunnel is kept; a finished one has not panicked, has told its client the
  answer that was due, and its probe, if there was one, followed the discipline.
\<close>

definition task_ok :: "proxy_config \<Rightarrow> task \<Rightarrow> bool" where
  "task_ok config t =
     (case t of
        Running _ _ h \<Rightarrow> list_all (\<lambda>e. connect_allowed e \<and> configured config e) h \<and> tunnel_order h
      | Finished _ r h \<Rightarrow> list_all (\<lambda>e. connect_allowed e \<and> configured config e) h \<and> tunnel_order h \<and>
          r \<noteq> Panicked \<and> told (due config h) h r \<and> probe_discipline config h)"

lemma run_ok:
  assumes "task_run uc config env = (r, h)"
  shows "task_ok config (Finished a r h)"
proof -
  note emitted = emits_handle_client [of uc env "worker_resolver config" config, unfolded emits_def]
    configured_handle_client [of config uc env, folded worker_resolver_def, unfolded emits_def]
  note ordered = in_order_handle_client [of uc env "worker_resolver config" config, unfolded follows_def]
    probe_handle_client [of config uc env "worker_resolver config", unfolded follows_def]
  have run: "\<exists>es r'. task_run uc config env = (r', es) \<and> P es r'"
    if "does P (handle_client uc env (worker_resolver config) config)" for P
    using doesD [OF that, of "[]"] by (simp add: task_run_def)
  show ?thesis
    using run [OF emitted(1)] run [OF emitted(2)] run [OF ordered(1)] run [OF ordered(2)] run [OF handle_client_told] assms
    by (auto simp: task_ok_def list_all_iff)
qed

lemma task_fits_ok: "task_fits uc config t \<Longrightarrow> task_ok config t"
proof (cases t)
  case (Running a env h)
  assume "task_fits uc config t"
  with Running have p: "prefix h (snd (task_run uc config env))" by (simp add: task_fits_def)
  obtain r hist where run: "task_run uc config env = (r, hist)" by (cases "task_run uc config env")
  from run_ok [OF run, of a] p run tunnel_order_prefix [of hist h] show ?thesis
    by (auto simp: Running task_ok_def list_all_iff dest: set_mono_prefix)
qed (auto simp: task_fits_def intro: run_ok)


section \<open>Properties\<close>

text \<open>
  C2: The proxy is no way into the host it runs on: for every environment (every request, every
  answer of the resolvers) and every configuration, a client connection is handled without
  a panic and no socket is connected to a loopback or unspecified address.
\<close>

theorem client_never_reaches_local_address:
  "\<exists>r es. handle_client uc env resolver config h = (r, h @ es) \<and> r \<noteq> Panicked \<and> list_all connect_allowed es"
  using doesD [OF emits_handle_client [unfolded emits_def], of uc env resolver config h] by blast

text \<open>
  C3: The order of a connection: the server receives nothing before the client has been told that the
  tunnel is established and has sent its first bytes; from then on the proxy itself tells the client
  nothing more, and the server receives a prefix of one of the streams the relay makes of those
  bytes. A connection without a tunnel writes nothing to a server at all.
\<close>

theorem server_hears_only_established_tunnels:
  "\<exists>r es. handle_client uc env resolver config h = (r, h @ es) \<and> tunnel_order es"
  using followsD [OF in_order_handle_client [of uc env resolver config], of h] .

text \<open>
  C14: A tunnel leads where the client asked: a socket is only connected for a request whose target
  parses, to the port of the target, and when the target is an address, with or without trailing dots,
  to that address.
\<close>

theorem tunnel_leads_to_target:
  "\<exists>r es. handle_connect_tunnel uc env resolver config req h = (r, h @ es) \<and>
     list_all (leads_to (parse_connect_target req)) es"
  using doesD [OF leads_connect_tunnel [of req uc env resolver config, unfolded emits_def], of h] by blast

text \<open>
  C15: Every connection of every worker of the process is safe at every moment: in all interleavings of the threads
  and of the steps of the connections of each thread, what a connection has done so far, finished or not,
  stays within the configuration of the process (its DNS server, its socket options, its probe), connects to
  no loopback or unspecified address and keeps the order of a tunnel; a finished one has not panicked
  and has given the answer that was due.
\<close>

theorem process_connections_safe:
  assumes "process_reachable uc pf config p" and "Working w \<in> set (threads p)"
  shows "list_all (task_ok config) (tasks w)"
proof -
  from assms(2) obtain i where "i < length (threads p)" "threads p ! i = Working w"
    by (auto simp: in_set_conv_nth)
  from reachable_fits [OF process_reachable_worker [OF assms(1) this]] show ?thesis
    by (auto simp: list_all_iff intro: task_fits_ok)
qed

theorem process_connections_safe_witness: "list_all (task_ok example_config) (tasks example_worker)"
  by (rule process_connections_safe [OF serving_reachable [OF example_worker_reachable [of "\<lambda>s. s"]]])
    (simp add: serving_def)

text \<open>
  C32: Five options have no effect on the handling of a connection. Alt-Svc stripping, type 65 filtering and the
  fallback target have none for any request; space insertion and header case mixing have none for every
  request whose first line is not blank, since the rewritten request is only used to find the method and the
  target and is never sent to anyone.
\<close>

theorem options_without_effect:
  assumes "request_words req \<noteq> [] \<or> (x1 = http_space config \<and> x2 = mix_header_case config)"
  shows "dispatch_request uc env resolver
      (config\<lparr>http_space := x1, mix_header_case := x2, strip_alt_svc := x3, filter_type65 := x4, fallback_target := x5\<rparr>) req =
    dispatch_request uc env resolver config req"
proof -
  have c: "is_http_connect (preprocess_http_request req x1 x2) =
      is_http_connect (preprocess_http_request req (http_space config) (mix_header_case config))"
    using assms preprocess.keeps_connect [of req] by auto
  have t: "handle_connect_tunnel uc env resolver
        (config\<lparr>http_space := x1, mix_header_case := x2, strip_alt_svc := x3, filter_type65 := x4, fallback_target := x5\<rparr>)
        (preprocess_http_request req x1 x2) =
      handle_connect_tunnel uc env resolver config
        (preprocess_http_request req (http_space config) (mix_header_case config))"
    by (rule connect_tunnel_cong) (simp add: preprocess.keeps_target)
  show ?thesis
    unfolding dispatch_request_def Let_def using t c by simp
qed

theorem options_without_effect_witness:
  "dispatch_request (\<lambda>s. s) calm_env (new_resolver [])
      (example_config\<lparr>http_space := False, mix_header_case := False, strip_alt_svc := False, filter_type65 := False,
        fallback_target := lit ''10.0.0.1:80''\<rparr>) (connect_request (lit ''example.org:443'') @ crlf) =
   dispatch_request (\<lambda>s. s) calm_env (new_resolver []) example_config
      (connect_request (lit ''example.org:443'') @ crlf)"
  by (rule options_without_effect) code_simp

text \<open>
  The condition is needed: with a blank first line the method is looked for in a header, and whether the header
  \<open>CONNECT : x\<close> still is one depends on the mixing of its case.
\<close>

lemma blank_first_line_depends_on_mixing:
  "is_http_connect (preprocess_http_request (crlf @ lit ''CONNECT : x'' @ crlf @ crlf) True False) \<and>
   \<not> is_http_connect (preprocess_http_request (crlf @ lit ''CONNECT : x'' @ crlf @ crlf) True True)"
  by code_simp

text \<open>
  C6: The whole program at work: whatever has happened so far, in any interleaving of the threads and
  connections, when the platform lets some worker serve, then each such worker can go on to accept a
  further client and to carry a session in which everything goes well to its tunnel, with the 200
  answer for the client and a complete stream of the relay for the server.
\<close>

theorem every_client_can_be_served:
  assumes "process_reachable uc pf config p" and "run_server pf config = [Serving live]" and "i \<in> set live"
    and "session_ok env (worker_resolver config) config request first_bytes addr"
  shows "\<exists>p' w es. (process_step uc pf config)\<^sup>*\<^sup>* p p' \<and> threads p' ! i = Working w \<and>
    Finished client_addr (Ok ()) (es @ [Tunnelled Client Remote]) \<in> set (tasks w) \<and>
    Connected Remote addr \<in> set es \<and> sent Client es = HTTP_200_ESTABLISHED \<and>
    sent Remote es \<in> outbound (take CLIENT_HELLO_BUF_SIZE first_bytes)"
proof -
  obtain p1 where p1: "(process_step uc pf config)\<^sup>*\<^sup>* p p1" "has_ended_as (Serving live) p1"
    using process_reaches_end [OF assms(1)] assms(2) by auto
  then obtain w where w: "alive p1" "i < length (threads p1)" "threads p1 ! i = Working w"
    using assms(3) by (auto simp: has_ended_as_def is_working_def split: thread.splits)
  obtain es where es: "task_run uc config env = (Ok (), es @ [Tunnelled Client Remote])"
    "Connected Remote addr \<in> set es" "sent Client es = HTTP_200_ESTABLISHED"
    "sent Remote es \<in> outbound (take CLIENT_HELLO_BUF_SIZE first_bytes)"
    using session_reaches_tunnel [OF assms(4)] unfolding task_run_def by blast
  let ?w = "w\<lparr>tasks := tasks w @ [Finished client_addr (Ok ()) (es @ [Tunnelled Client Remote])]\<rparr>"
  have "(process_step uc pf config)\<^sup>*\<^sup>* p1 (p1\<lparr>threads := (threads p1)[i := Working ?w]\<rparr>)"
    by (rule working_steps [OF client_served [OF es(1)] w])
  with p1(1) have "(process_step uc pf config)\<^sup>*\<^sup>* p (p1\<lparr>threads := (threads p1)[i := Working ?w]\<rparr>)"
    by (rule rtranclp_trans)
  with w(2) es(2-4) show ?thesis
    by (intro exI [of _ "p1\<lparr>threads := (threads p1)[i := Working ?w]\<rparr>"] exI [of _ ?w] exI [of _ es]) simp
qed

theorem every_client_can_be_served_witness:
  "\<exists>p' w es. (process_step (\<lambda>s. s) one_worker example_config)\<^sup>*\<^sup>* process_start p' \<and> threads p' ! 0 = Working w \<and>
    Finished example_client (Ok ()) (es @ [Tunnelled Client Remote]) \<in> set (tasks w) \<and>
    Connected Remote \<lparr>sa_ip = V4 93 184 216 34, sa_port = 443\<rparr> \<in> set es \<and>
    sent Client es = HTTP_200_ESTABLISHED \<and>
    sent Remote es \<in> outbound (take CLIENT_HELLO_BUF_SIZE (example_ch @ [0x14, 3, 3]))"
proof (rule every_client_can_be_served [OF process_reachable.start run_one_worker])
  show "session_ok example_session (worker_resolver example_config) example_config example_request
      (example_ch @ [0x14, 3, 3]) \<lparr>sa_ip = V4 93 184 216 34, sa_port = 443\<rparr>"
    using example_session_ok by (simp add: worker_resolver_def example_config_def)
qed simp

end
